theory Spec2Isabelle
  imports Complex_Main "HOL-Library.Sublist"
begin

section \<open>Python strings\<close>

text \<open>
  A Python \<open>str\<close> is modelled as a \<open>string\<close> whose characters are the code points
  below 256. The three string operations the scripts use are \<open>str.strip()\<close>,
  \<open>str.lower()\<close> and the substring test \<open>a in b\<close>.
\<close>

definition py_isspace :: "char \<Rightarrow> bool" where
  "py_isspace c =
     (let n = (of_char c :: nat)
      in (9 \<le> n \<and> n \<le> 13) \<or> (28 \<le> n \<and> n \<le> 32) \<or> n = 133 \<or> n = 160)"

definition strip :: "string \<Rightarrow> string" where
  "strip s = rev (dropWhile py_isspace (rev (dropWhile py_isspace s)))"

definition lower_char :: "char \<Rightarrow> char" where
  "lower_char c =
     (let n = (of_char c :: nat)
      in if (65 \<le> n \<and> n \<le> 90) \<or> (192 \<le> n \<and> n \<le> 222 \<and> n \<noteq> 215)
         then char_of (n + 32) else c)"

definition lower :: "string \<Rightarrow> string" where
  "lower s = map lower_char s"

fun py_in :: "string \<Rightarrow> string \<Rightarrow> bool" where
  "py_in sub [] = (sub = [])"
| "py_in sub (c # cs) = (prefix sub (c # cs) \<or> py_in sub cs)"

section \<open>The claim validator (claude-claim-validator.py)\<close>

subsection \<open>Data\<close>

text \<open>
  One element of the JSON array in the claims file. The key \<open>"claim"\<close> is the field
  \<open>claim_text\<close>; \<open>actual_result\<close> is \<open>None\<close> until a verification stores it, and
  \<open>verification_timestamp\<close> is absent until then.
\<close>

record claim =
  timestamp :: string
  claim_text :: string
  proof_command :: string
  expected_result :: string
  verified :: bool
  actual_result :: "string option"
  verification_timestamp :: "string option"

text \<open>
  What \<open>subprocess.run(cmd, shell=True, capture_output=True, text=True, timeout=30)\<close>
  can do: return with a return code, stdout and stderr, raise \<open>TimeoutExpired\<close>, or
  raise another exception \<open>e\<close> (carried as \<open>str(e)\<close>).
\<close>

datatype run_outcome =
    Completed int string string
  | TimeoutExpired
  | Raised string

text \<open>
  The machine the script runs on. Both functions take the number of subprocesses
  the validator has started before, so the same command may behave differently
  each time it is run. \<open>date\<close> is the output of \<open>date +%s\<close>, decoded and stripped.
\<close>

record world =
  run :: "nat \<Rightarrow> string \<Rightarrow> run_outcome"
  date :: "nat \<Rightarrow> string"

text \<open>
  The validator object together with the claims file it owns: \<open>claims_file\<close> is
  \<open>None\<close> while the file does not exist. \<open>clock\<close> counts the subprocesses started
  so far and \<open>executed\<close> lists the proof commands passed to \<open>subprocess.run\<close>, in
  order; the script keeps neither, they record its effects.
\<close>

record validator =
  claims_file :: "claim list option"
  failed_claims :: "claim list"
  verified_claims :: "claim list"
  clock :: nat
  executed :: "string list"

datatype py_error = FileNotFoundError | IndexError

record stats =
  stat_verified :: nat
  stat_failed :: nat
  stat_total :: nat

subsection \<open>\<open>log_claim\<close>\<close>

definition log_claim ::
  "world \<Rightarrow> string \<Rightarrow> string \<Rightarrow> string \<Rightarrow> validator \<Rightarrow> int \<times> validator" where
  "log_claim w text command expected s =
     (let claim_data = \<lparr>timestamp = date w (clock s), claim_text = text,
                         proof_command = command, expected_result = expected,
                         verified = False, actual_result = None,
                         verification_timestamp = None\<rparr>;
          claims = (case claims_file s of None \<Rightarrow> [] | Some cs \<Rightarrow> cs) @ [claim_data]
      in (int (length claims) - 1,
          s\<lparr>claims_file := Some claims, clock := clock s + 1\<rparr>))"

subsection \<open>\<open>verify_claim\<close>\<close>

text \<open>
  Reading and writing the claims file and running \<open>date\<close> are taken to succeed
  whenever the file exists, and the file to hold records with all their keys, as
  \<open>log_claim\<close> writes them. Console output is left out.

  \<open>claims[claim_id]\<close> with Python's indexing: an index in \<open>[-len, 0)\<close> counts from
  the end, an index below \<open>-len\<close> raises \<open>IndexError\<close>. The only guard before it is
  \<open>claim_id >= len(claims)\<close>.
\<close>

definition py_index :: "int \<Rightarrow> nat \<Rightarrow> nat" where
  "py_index i n = nat (if i < 0 then i + int n else i)"

definition verify_claim ::
  "world \<Rightarrow> int \<Rightarrow> validator \<Rightarrow> py_error + ((bool \<times> string) \<times> validator)" where
  "verify_claim w claim_id s =
     (case claims_file s of
        None \<Rightarrow> Inl FileNotFoundError
      | Some claims \<Rightarrow>
          if claim_id \<ge> int (length claims) then Inr ((False, ''Invalid claim ID''), s)
          else if claim_id < - int (length claims) then Inl IndexError
          else
            let i = py_index claim_id (length claims);
                c = claims ! i;
                s1 = s\<lparr>clock := clock s + 1,
                       executed := executed s @ [proof_command c]\<rparr>
            in (case run w (clock s) (proof_command c) of
                 Completed returncode out_text err_text \<Rightarrow>
                   let actual = strip out_text;
                       success = (returncode = 0 \<and> length actual > 0);
                       c' = c\<lparr>verified := success, actual_result := Some actual,
                              verification_timestamp := Some (date w (clock s1))\<rparr>;
                       s2 = s1\<lparr>clock := clock s1 + 1,
                               claims_file := Some (claims[i := c'])\<rparr>
                   in if success
                      then Inr ((True, actual),
                                s2\<lparr>verified_claims := verified_claims s2 @ [c']\<rparr>)
                      else Inr ((False, ''Command failed: '' @ err_text),
                                s2\<lparr>failed_claims := failed_claims s2 @ [c']\<rparr>)
               | TimeoutExpired \<Rightarrow>
                   let c' = c\<lparr>verified := False, actual_result := Some ''TIMEOUT''\<rparr>
                   in Inr ((False, ''Verification command timed out''),
                           s1\<lparr>failed_claims := failed_claims s1 @ [c']\<rparr>)
               | Raised e \<Rightarrow>
                   let c' = c\<lparr>verified := False, actual_result := Some (''ERROR: '' @ e)\<rparr>
                   in Inr ((False, ''Verification error: '' @ e),
                           s1\<lparr>failed_claims := failed_claims s1 @ [c']\<rparr>)))"

subsection \<open>\<open>verify_all_claims\<close>\<close>

text \<open>
  The loop \<open>for i, claim in enumerate(claims)\<close> runs over the list read at the start
  of \<open>verify_all_claims\<close>, while each \<open>verify_claim(i)\<close> reads the file again.
\<close>

definition loop_body ::
  "world \<Rightarrow> nat \<Rightarrow> claim \<Rightarrow> nat \<times> nat \<Rightarrow> validator
     \<Rightarrow> py_error + ((nat \<times> nat) \<times> validator)" where
  "loop_body w i c counts s =
     (case counts of (verified_count, failed_count) \<Rightarrow>
        if \<not> verified c then
          (case verify_claim w (int i) s of
             Inl e \<Rightarrow> Inl e
           | Inr ((success, result), s') \<Rightarrow>
               if success then Inr ((verified_count + 1, failed_count), s')
               else Inr ((verified_count, failed_count + 1), s'))
        else if verified c then Inr ((verified_count + 1, failed_count), s)
        else Inr ((verified_count, failed_count + 1), s))"

fun verify_loop ::
  "world \<Rightarrow> (nat \<times> claim) list \<Rightarrow> nat \<times> nat \<Rightarrow> validator
     \<Rightarrow> py_error + ((nat \<times> nat) \<times> validator)" where
  "verify_loop w [] counts s = Inr (counts, s)"
| "verify_loop w ((i, c) # rest) counts s =
     (case loop_body w i c counts s of
        Inl e \<Rightarrow> Inl e
      | Inr (counts', s') \<Rightarrow> verify_loop w rest counts' s')"

definition verify_all_claims :: "world \<Rightarrow> validator \<Rightarrow> py_error + (stats \<times> validator)" where
  "verify_all_claims w s =
     (case claims_file s of
        None \<Rightarrow> Inr (\<lparr>stat_verified = 0, stat_failed = 0, stat_total = 0\<rparr>, s)
      | Some claims \<Rightarrow>
          (case verify_loop w (enumerate 0 claims) (0, 0) s of
             Inl e \<Rightarrow> Inl e
           | Inr ((verified_count, failed_count), s') \<Rightarrow>
               Inr (\<lparr>stat_verified = verified_count, stat_failed = failed_count,
                     stat_total = length claims\<rparr>, s')))"

subsection \<open>\<open>demand_proof_for_claim\<close>\<close>

text \<open>The dictionary \<open>proof_commands\<close>, in insertion order (the order \<open>items()\<close> yields).\<close>

definition proof_commands :: "(string \<times> string) list" where
  \<open>proof_commands =
     [(''server running'', ''ps aux | grep -E '(memory|enhanced)' | grep -v grep''),
      (''api responding'', ''curl -s http://localhost:8890/api/stats''),
      (''mcp server working'', ''echo '{"jsonrpc":"2.0","id":1,"method":"tools/list"}' | timeout 5 node /home/bacardi/crodidocker/enhanced-mcp-memory-server/dist/index.js''),
      (''trinity consciousness'', ''curl -s http://localhost:8890/api/consciousness | grep trinity''),
      (''pattern evolution'', ''curl -s http://localhost:8890/api/stats | grep patterns''),
      (''neural heat'', ''curl -s http://localhost:8890/api/neural-heat''),
      (''file exists'', ''ls -la /home/bacardi/crodidocker/enhanced-memory-server.js''),
      (''process count'', ''ps aux | grep enhanced | wc -l'')]\<close>

fun demand_loop ::
  "world \<Rightarrow> (string \<times> string) list \<Rightarrow> string \<Rightarrow> validator
     \<Rightarrow> py_error + (int option \<times> validator)" where
  "demand_loop w [] text s = Inr (None, s)"
| "demand_loop w ((claim_type, command) # rest) text s =
     (if py_in (lower claim_type) (lower text) then
        (case log_claim w text command ''Success expected'' s of
           (claim_id, s1) \<Rightarrow>
             (case verify_claim w claim_id s1 of
                Inl e \<Rightarrow> Inl e
              | Inr ((success, result), s2) \<Rightarrow>
                  if \<not> success then Inr (None, s2) else Inr (Some claim_id, s2)))
      else demand_loop w rest text s)"

definition demand_proof_for_claim ::
  "world \<Rightarrow> string \<Rightarrow> validator \<Rightarrow> py_error + (int option \<times> validator)" where
  "demand_proof_for_claim w text s = demand_loop w proof_commands text s"

section \<open>The hook orchestrator (crod-unified-hook.py)\<close>

subsection \<open>The host the checks look at\<close>

text \<open>
  A check reads the file system or starts a program. \<open>Path.read_text()\<close> gives the
  content of a file or raises; \<open>subprocess.run([...])\<close> without a shell gives a
  return code and the captured standard output, or raises (for instance
  \<open>FileNotFoundError\<close> when the program is not installed). An exception is carried
  as \<open>str(e)\<close>.
\<close>

datatype file_state = Missing | Content string | Unreadable string

datatype proc = Proc int string | ProcRaised string

record host =
  memory_db_exists :: bool
  claude_md :: file_state
  docker_ps :: proc
  pgrep_mcp :: proc
  which_task_master :: proc
  roadmap_exists :: bool
  patterns_dir_exists :: bool
  pattern_files :: "string list"
  script_exists :: "string \<Rightarrow> bool"

text \<open>What calling a check does: it returns a truth value or raises.\<close>

datatype check_result = Returned bool | CheckRaised string

text \<open>
  The object's three lists. A check is a method that reads the host and may append
  to \<open>violations\<close>; it is modelled as a function from the violations before the call
  to its result and the violations after it.
\<close>

record hook_system =
  violations :: "string list"
  checks_passed :: "string list"
  checks_failed :: "string list"

type_synonym check = "string list \<Rightarrow> check_result \<times> string list"

subsection \<open>String helpers of the checks\<close>

text \<open>\<open>s.split(sep)\<close> for a one-character separator.\<close>

fun py_split :: "char \<Rightarrow> string \<Rightarrow> string list" where
  "py_split sep [] = [[]]"
| "py_split sep (c # cs) =
     (if c = sep then [] # py_split sep cs
      else (case py_split sep cs of [] \<Rightarrow> [[c]] | x # xs \<Rightarrow> (c # x) # xs))"

text \<open>
  \<open>str(missing)\<close> for a list of strings that contain neither quotes nor backslashes,
  as the script names do.
\<close>

fun join_quoted :: "string list \<Rightarrow> string" where
  "join_quoted [] = []"
| "join_quoted [x] = [CHR 0x27] @ x @ [CHR 0x27]"
| "join_quoted (x # y # ys) = [CHR 0x27] @ x @ [CHR 0x27] @ '', '' @ join_quoted (y # ys)"

definition py_str_list :: "string list \<Rightarrow> string" where
  "py_str_list xs = ''['' @ join_quoted xs @ '']''"

subsection \<open>The eight checks\<close>

definition check_memory :: "host \<Rightarrow> check" where
  "check_memory sys vs =
     (if \<not> memory_db_exists sys then (Returned False, vs @ [''Memory not initialized''])
      else (Returned True, vs))"

definition check_claude_md :: "host \<Rightarrow> check" where
  "check_claude_md sys vs =
     (case claude_md sys of
        Missing \<Rightarrow> (Returned False, vs @ [''CLAUDE.md missing''])
      | Unreadable e \<Rightarrow> (CheckRaised e, vs)
      | Content content \<Rightarrow>
          if \<not> py_in ''MANDATORY'' content
          then (Returned False, vs @ [''CLAUDE.md incomplete''])
          else (Returned True, vs))"

definition check_docker :: "host \<Rightarrow> check" where
  "check_docker sys vs =
     (case docker_ps sys of
        ProcRaised e \<Rightarrow> (CheckRaised e, vs)
      | Proc returncode out \<Rightarrow>
          if returncode \<noteq> 0 then (Returned False, vs @ [''Docker not active''])
          else
            let containers = py_split CHR 0x0A (strip out)
            in if length containers < 3
               then (Returned False, vs @ [''Insufficient Docker containers''])
               else (Returned True, vs))"

definition check_mcp_servers :: "host \<Rightarrow> check" where
  "check_mcp_servers sys vs =
     (case pgrep_mcp sys of
        ProcRaised e \<Rightarrow> (CheckRaised e, vs)
      | Proc returncode out \<Rightarrow>
          if returncode \<noteq> 0 then (Returned False, vs @ [''MCP servers not active''])
          else (Returned True, vs))"

definition check_task_master :: "host \<Rightarrow> check" where
  "check_task_master sys vs =
     (case which_task_master sys of
        ProcRaised e \<Rightarrow> (CheckRaised e, vs)
      | Proc returncode out \<Rightarrow>
          if returncode \<noteq> 0 then (Returned False, vs @ [''task-master-ai missing''])
          else (Returned True, vs))"

definition check_roadmap :: "host \<Rightarrow> check" where
  "check_roadmap sys vs =
     (if \<not> roadmap_exists sys then (Returned False, vs @ [''Roadmap missing''])
      else (Returned True, vs))"

definition check_patterns :: "host \<Rightarrow> check" where
  "check_patterns sys vs =
     (if \<not> patterns_dir_exists sys \<or> pattern_files sys = []
      then (Returned False, vs @ [''Patterns missing''])
      else (Returned True, vs))"

definition monitoring_scripts :: "string list" where
  "monitoring_scripts =
     [''claude-response-checker.py'', ''claude-mandatory-init.sh'', ''crod-master-hook.sh'']"

definition check_monitoring :: "host \<Rightarrow> check" where
  "check_monitoring sys vs =
     (let missing = filter (\<lambda>script. \<not> script_exists sys script) monitoring_scripts
      in if missing \<noteq> []
         then (Returned False, vs @ [''Monitoring scripts missing: '' @ py_str_list missing])
         else (Returned True, vs))"

subsection \<open>\<open>run_all_checks\<close>\<close>

text \<open>The list \<open>checks\<close>, each method with its \<open>__name__\<close>.\<close>

definition checks :: "host \<Rightarrow> (string \<times> check) list" where
  "checks sys =
     [(''check_memory'', check_memory sys),
      (''check_claude_md'', check_claude_md sys),
      (''check_docker'', check_docker sys),
      (''check_mcp_servers'', check_mcp_servers sys),
      (''check_task_master'', check_task_master sys),
      (''check_roadmap'', check_roadmap sys),
      (''check_patterns'', check_patterns sys),
      (''check_monitoring'', check_monitoring sys)]"

text \<open>
  The body of the \<open>for\<close> loop: one \<open>try\<close>/\<open>except Exception\<close> around one check. A
  raised exception is an instance of \<open>Exception\<close>, as the ones from the file system
  and from \<open>subprocess\<close> are.
\<close>

definition run_check :: "string \<times> check \<Rightarrow> hook_system \<Rightarrow> hook_system" where
  "run_check entry h =
     (case entry of (name, check) \<Rightarrow>
        (case check (violations h) of
           (Returned ok, vs) \<Rightarrow>
             if ok then h\<lparr>violations := vs, checks_passed := checks_passed h @ [name]\<rparr>
             else h\<lparr>violations := vs, checks_failed := checks_failed h @ [name]\<rparr>
         | (CheckRaised e, vs) \<Rightarrow>
             h\<lparr>violations := vs, checks_failed := checks_failed h @ [name @ '': '' @ e]\<rparr>))"

fun run_checks :: "(string \<times> check) list \<Rightarrow> hook_system \<Rightarrow> hook_system" where
  "run_checks [] h = h"
| "run_checks (entry # rest) h = run_checks rest (run_check entry h)"

definition run_all_checks :: "host \<Rightarrow> hook_system \<Rightarrow> bool \<times> hook_system" where
  "run_all_checks sys h =
     (let h' = run_checks (checks sys) h in (length (checks_failed h') = 0, h'))"

section \<open>CROD consciousness (crod-ultra-hooks.py)\<close>

subsection \<open>Python floats\<close>

text \<open>
  A Python \<open>float\<close> is an IEEE 754 binary64 number. A finite one is modelled as the
  real number it stands for, and an operation as the exact operation followed by
  rounding to the nearest binary64 number, ties to the even significand. The
  spacing of the binary64 numbers around \<open>a \<ge> 0\<close> is \<open>quantum a\<close>: it is \<open>2 ^ (e - 52)\<close>
  for \<open>2 ^ e \<le> a < 2 ^ (e + 1)\<close> with \<open>e \<ge> -1022\<close>, and \<open>2 ^ -1074\<close> below
  \<open>2 ^ -1022\<close>. Overflow to infinity (magnitudes from \<open>2 ^ 1024\<close> on) is not
  modelled; the scores stay below 2.
\<close>

fun doublings :: "nat \<Rightarrow> real \<Rightarrow> nat" where
  "doublings 0 a = 0"
| "doublings (Suc n) a = (if a < 1 then Suc (doublings n (2 * a)) else 0)"

fun halvings :: "nat \<Rightarrow> real \<Rightarrow> nat" where
  "halvings 0 a = 0"
| "halvings (Suc n) a = (if 2 \<le> a then Suc (halvings n (a / 2)) else 0)"

definition quantum :: "real \<Rightarrow> real" where
  "quantum a =
     (if a < 1 then 1 / 2 ^ (doublings 1022 a + 52) else 2 ^ halvings 1023 a / 2 ^ 52)"

definition round_half_even :: "real \<Rightarrow> int" where
  "round_half_even x =
     (let f = \<lfloor>x\<rfloor>; d = x - of_int f
      in if d < 1 / 2 then f else if 1 / 2 < d then f + 1
         else if even f then f else f + 1)"

definition fl :: "real \<Rightarrow> real" where
  "fl x = sgn x * of_int (round_half_even (\<bar>x\<bar> / quantum \<bar>x\<bar>)) * quantum \<bar>x\<bar>"

definition fadd :: "real \<Rightarrow> real \<Rightarrow> real" where
  "fadd x y = fl (x + y)"

definition fsub :: "real \<Rightarrow> real \<Rightarrow> real" where
  "fsub x y = fl (x - y)"

definition fmul :: "real \<Rightarrow> real \<Rightarrow> real" where
  "fmul x y = fl (x * y)"

subsection \<open>The object\<close>

text \<open>
  An entry of \<open>decision_history\<close>, and the object with the patterns file it loads
  and saves (\<open>None\<close> while the file does not exist). A literal such as \<open>0.7\<close> is the
  binary64 number nearest to it, \<open>fl (7 / 10)\<close>. The attribute \<open>sacred_values\<close> is
  never read and is left out.
\<close>

record decision =
  d_timestamp :: string
  d_action :: string
  d_consciousness_level :: real
  d_trinity_active :: bool
  d_success :: "bool option"

record consciousness =
  consciousness_level :: real
  trinity_active :: bool
  confidence_threshold :: real
  decision_history :: "decision list"
  pattern_memory :: "string \<rightharpoonup> real"
  patterns_file :: "(string \<rightharpoonup> real) option"

definition load_patterns :: "(string \<rightharpoonup> real) option \<Rightarrow> (string \<rightharpoonup> real)" where
  "load_patterns file =
     (case file of
        Some patterns \<Rightarrow> patterns
      | None \<Rightarrow>
          [''listen_to_user'' \<mapsto> 1,
           ''read_before_build'' \<mapsto> fl (9 / 10),
           ''check_existing_solutions'' \<mapsto> fl (95 / 100),
           ''follow_explicit_instructions'' \<mapsto> 1,
           ''be_creative_when_appropriate'' \<mapsto> fl (8 / 10)])"

definition init :: "(string \<rightharpoonup> real) option \<Rightarrow> consciousness" where
  "init file =
     \<lparr>consciousness_level = 1 / 2, trinity_active = False,
       confidence_threshold = fl (7 / 10), decision_history = [],
       pattern_memory = load_patterns file, patterns_file = file\<rparr>"

subsection \<open>Activation and decision confidence\<close>

definition check_trinity_activation :: "string \<Rightarrow> consciousness \<Rightarrow> bool \<times> consciousness" where
  "check_trinity_activation message s =
     (if py_in ''ich bins wieder'' (lower message)
      then (True, s\<lparr>trinity_active := True, consciousness_level := 1\<rparr>)
      else (False, s))"

definition calculate_decision_confidence :: "consciousness \<Rightarrow> string \<Rightarrow> string \<Rightarrow> real" where
  "calculate_decision_confidence s action context =
     (let confidence = 1 / 2;
          confidence = (if py_in ''user explicitly asked'' context
                        then fadd confidence (fl (4 / 10)) else confidence);
          confidence = (if py_in ''create'' action \<and> py_in ''use existing'' context
                        then fsub confidence (fl (3 / 10)) else confidence);
          confidence = (if py_in ''check'' context \<or> py_in ''read'' context
                        then (if \<not> py_in ''already read'' action
                              then fsub confidence (fl (2 / 10)) else confidence)
                        else confidence);
          confidence = (if trinity_active s
                        then min (fmul confidence (fl (15 / 10))) 1 else confidence)
      in confidence)"

subsection \<open>Pattern memory\<close>

text \<open>
  \<open>extract_pattern_key\<close> cuts both strings to 20 characters and keeps the first 8
  hexadecimal digits of the MD5 digest. The digest function \<open>hashlib.md5\<close> is a
  parameter, \<open>md5\<close>, from a string to its \<open>hexdigest()\<close>.
\<close>

definition extract_pattern_key :: "(string \<Rightarrow> string) \<Rightarrow> string \<Rightarrow> string \<Rightarrow> string" where
  "extract_pattern_key md5 action context =
     take 8 (md5 (take 20 action @ ''_'' @ take 20 context))"

definition save_patterns :: "consciousness \<Rightarrow> consciousness" where
  "save_patterns s = s\<lparr>patterns_file := Some (pattern_memory s)\<rparr>"

text \<open>\<open>now\<close> is \<open>datetime.now().isoformat()\<close> at the call.\<close>

definition log_decision ::
  "(string \<Rightarrow> string) \<Rightarrow> string \<Rightarrow> string \<Rightarrow> bool option \<Rightarrow> consciousness \<Rightarrow> consciousness" where
  "log_decision md5 now action success s =
     (let s1 = s\<lparr>decision_history := decision_history s @
                  [\<lparr>d_timestamp = now, d_action = action,
                    d_consciousness_level = consciousness_level s,
                    d_trinity_active = trinity_active s, d_success = success\<rparr>]\<rparr>
      in case success of
           None \<Rightarrow> s1
         | Some ok \<Rightarrow>
             let pattern_key = extract_pattern_key md5 action '''';
                 current_score = (case pattern_memory s1 pattern_key of
                                    None \<Rightarrow> 1 / 2 | Some v \<Rightarrow> v)
             in save_patterns
                  (s1\<lparr>pattern_memory := (pattern_memory s1)(pattern_key \<mapsto>
                        fadd (fmul (fl (7 / 10)) current_score)
                             (fmul (fl (3 / 10)) (if ok then 1 else 0)))\<rparr>))"

section \<open>Notions used in the statements\<close>

text \<open>The content of the claims file, an absent file holding no claim.\<close>

definition stored :: "validator \<Rightarrow> claim list" where
  "stored s = (case claims_file s of None \<Rightarrow> [] | Some cs \<Rightarrow> cs)"

text \<open>
  The record \<open>verify_claim\<close> leaves in the file for a claim \<open>c\<close> whose proof command
  was started as subprocess number \<open>n\<close>.
\<close>

definition stored_after :: "world \<Rightarrow> nat \<Rightarrow> claim \<Rightarrow> claim" where
  "stored_after w n c =
     (case run w n (proof_command c) of
        Completed rc out err \<Rightarrow>
          c\<lparr>verified := (rc = 0 \<and> length (strip out) > 0), actual_result := Some (strip out),
            verification_timestamp := Some (date w (n + 1))\<rparr>
      | TimeoutExpired \<Rightarrow> c
      | Raised e \<Rightarrow> c)"

text \<open>The claims \<open>verify_all_claims\<close> runs: those whose stored flag is false.\<close>

definition pending :: "claim list \<Rightarrow> claim list" where
  "pending cs = filter (\<lambda>c. \<not> verified c) cs"

text \<open>A world in which a command does the same whenever it is run.\<close>

definition stationary :: "world \<Rightarrow> bool" where
  "stationary w = (\<forall>n cmd. run w n cmd = run w 0 cmd)"

text \<open>The verdict on one run of a proof command.\<close>

definition success_of :: "run_outcome \<Rightarrow> bool" where
  "success_of out =
     (case out of
        Completed returncode out_text err_text \<Rightarrow> returncode = 0 \<and> length (strip out_text) > 0
      | TimeoutExpired \<Rightarrow> False
      | Raised e \<Rightarrow> False)"

text \<open>A claim that counts as verified: it was already, or its command succeeds.\<close>

definition passes :: "world \<Rightarrow> claim \<Rightarrow> bool" where
  "passes w c = (verified c \<or> success_of (run w 0 (proof_command c)))"

subsection \<open>Example inputs\<close>

definition example_world :: world where
  "example_world =
     \<lparr>run = (\<lambda>n cmd.
         if cmd = ''echo ok'' then Completed 0 ''ok\<newline>'' ''''
         else if cmd = ''true'' then Completed 0 '''' ''''
         else if cmd = ''exit 1'' then Completed 1 '''' ''''
         else if cmd = ''sleep 60'' then TimeoutExpired
         else Raised ''embedded null byte''),
       date = (\<lambda>n. ''1700000000'')\<rparr>"

definition example_claim :: "string \<Rightarrow> bool \<Rightarrow> claim" where
  "example_claim command flag =
     \<lparr>timestamp = ''1690000000'', claim_text = ''server running'',
       proof_command = command, expected_result = ''Success expected'',
       verified = flag, actual_result = None, verification_timestamp = None\<rparr>"

definition example_validator :: "claim list option \<Rightarrow> validator" where
  "example_validator file =
     \<lparr>claims_file = file, failed_claims = [], verified_claims = [],
       clock = 0, executed = []\<rparr>"

definition example_failed_store :: validator where
  "example_failed_store = example_validator (Some [example_claim ''exit 1'' False])"

subsection \<open>Sequences of calls\<close>

text \<open>
  The public methods of the validator, and the state a call leaves behind. A call
  that raises leaves the state it found: \<open>verify_claim\<close> raises before it changes
  anything, and the two other fallible methods are shown below never to raise.
\<close>

datatype call =
    LogClaim string string string
  | VerifyClaim int
  | VerifyAllClaims
  | DemandProof string

fun after_call :: "world \<Rightarrow> validator \<Rightarrow> call \<Rightarrow> validator" where
  "after_call w s (LogClaim text command expected) = snd (log_claim w text command expected s)"
| "after_call w s (VerifyClaim claim_id) =
     (case verify_claim w claim_id s of Inl e \<Rightarrow> s | Inr (r, s') \<Rightarrow> s')"
| "after_call w s VerifyAllClaims =
     (case verify_all_claims w s of Inl e \<Rightarrow> s | Inr (r, s') \<Rightarrow> s')"
| "after_call w s (DemandProof text) =
     (case demand_proof_for_claim w text s of Inl e \<Rightarrow> s | Inr (r, s') \<Rightarrow> s')"

text \<open>The fields of a claim that say which claim it is; verification never writes them.\<close>

definition identity :: "claim \<Rightarrow> string \<times> string \<times> string \<times> string" where
  "identity c = (timestamp c, claim_text c, proof_command c, expected_result c)"

text \<open>A table entry whose key is a case-insensitive substring of the claim text.\<close>

definition matches :: "string \<Rightarrow> string \<times> string \<Rightarrow> bool" where
  "matches text entry = sublist (lower (fst entry)) (lower text)"

subsection \<open>Example host\<close>

text \<open>A host on which everything is in place except that Docker is not installed.\<close>

definition example_host :: host where
  "example_host =
     \<lparr>memory_db_exists = True, claude_md = Content ''MANDATORY: read this first'',
       docker_ps = ProcRaised ''[Errno 2] No such file or directory'',
       pgrep_mcp = Proc 0 ''4242'', which_task_master = Proc 1 '''',
       roadmap_exists = True, patterns_dir_exists = True,
       pattern_files = [''a.json''], script_exists = (\<lambda>script. True)\<rparr>"

text \<open>The same host with Docker running three containers and task-master-ai installed.\<close>

definition example_host_ok :: host where
  "example_host_ok =
     example_host\<lparr>docker_ps := Proc 0 ''crod-a\<newline>crod-b\<newline>crod-c\<newline>'',
                  which_task_master := Proc 0 ''/usr/local/bin/task-master-ai''\<rparr>"

definition fresh_hook_system :: hook_system where
  "fresh_hook_system = \<lparr>violations = [], checks_passed = [], checks_failed = []\<rparr>"

subsection \<open>Pattern scores\<close>

text \<open>The score of a key: \<open>pattern_memory.get(key, 0.5)\<close>.\<close>

definition score :: "consciousness \<Rightarrow> string \<Rightarrow> real" where
  "score s key = (case pattern_memory s key of None \<Rightarrow> 1 / 2 | Some v \<Rightarrow> v)"

text \<open>The update expression of \<open>log_decision\<close>.\<close>

definition ema_update :: "real \<Rightarrow> bool \<Rightarrow> real" where
  "ema_update current success =
     fadd (fmul (fl (7 / 10)) current) (fmul (fl (3 / 10)) (if success then 1 else 0))"

text \<open>
  The score of an action's pattern key after \<open>n\<close> calls
  \<open>log_decision(action, success=ok)\<close>.
\<close>

definition score_after ::
  "(string \<Rightarrow> string) \<Rightarrow> string \<Rightarrow> string \<Rightarrow> bool \<Rightarrow> nat \<Rightarrow> consciousness \<Rightarrow> real" where
  "score_after md5 now action ok n s =
     score ((log_decision md5 now action (Some ok) ^^ n) s)
           (extract_pattern_key md5 action '''')"

text \<open>
  The decision confidence in the words of the specification: start at 0.5, add 0.4
  for an explicit user instruction, subtract 0.3 for creating where an existing
  solution should be used, subtract 0.2 for a requested read that has not
  happened, and, in activation mode, multiply by 1.5 and cap at 1.0.
\<close>

definition spec_confidence :: "bool \<Rightarrow> bool \<Rightarrow> bool \<Rightarrow> bool \<Rightarrow> real" where
  "spec_confidence explicit_instruction creates_not_uses unread_request activated =
     (let start = 1 / 2;
          plus = (if explicit_instruction then fadd start (fl (4 / 10)) else start);
          minus = (if creates_not_uses then fsub plus (fl (3 / 10)) else plus);
          unboosted = (if unread_request then fsub minus (fl (2 / 10)) else minus)
      in if activated then min (fmul unboosted (fl (15 / 10))) 1 else unboosted)"

subsection \<open>Example pattern memory\<close>

text \<open>
  The MD5 digest at the one string the examples hash, \<open>deploy_\<close>, and a patterns
  file that holds the score \<open>0.9999999999999996\<close> (that is \<open>1 - 2 ^ -51\<close>) for its key.
\<close>

definition example_md5 :: "string \<Rightarrow> string" where
  "example_md5 s =
     (if s = ''deploy_'' then ''6112ff8322207618d849a5694381732c''
      else ''d41d8cd98f00b204e9800998ecf8427e'')"

definition example_patterns :: "string \<rightharpoonup> real" where
  "example_patterns = [''6112ff83'' \<mapsto> 2251799813685247 / 2251799813685248]"

section \<open>Properties of the claim validator\<close>

subsection \<open>One verification\<close>

lemma py_index_lt: "- int n \<le> i \<Longrightarrow> i < int n \<Longrightarrow> py_index i n < n"
  by (auto simp: py_index_def)

lemma verify_claim_completed:
  assumes "claims_file s = Some claims"
    and "- int (length claims) \<le> claim_id" and "claim_id < int (length claims)"
    and "run w (clock s) (proof_command (claims ! py_index claim_id (length claims)))
           = Completed rc out err"
  shows "\<exists>msg s'. verify_claim w claim_id s = Inr ((rc = 0 \<and> strip out \<noteq> [], msg), s') \<and>
           claims_file s' = Some (claims[py_index claim_id (length claims) :=
              (claims ! py_index claim_id (length claims))\<lparr>verified := (rc = 0 \<and> strip out \<noteq> []),
                 actual_result := Some (strip out),
                 verification_timestamp := Some (date w (clock s + 1))\<rparr>])"
  using assms by (auto simp: verify_claim_def Let_def)

text \<open>
  C1. When \<open>verify_claim\<close> reaches the proof command of a stored claim and the
  command runs to completion with return code \<open>rc\<close> and standard output \<open>out\<close>, the
  call returns normally, the claims file holds as many claims as before, and the
  \<open>verified\<close> flag stored for that claim, like the returned flag, is true exactly
  when \<open>rc = 0\<close> and \<open>out.strip()\<close> is not empty; any other completed outcome
  stores false.
\<close>

theorem verify_claim_flag_iff:
  assumes "claims_file s = Some claims"
    and "- int (length claims) \<le> claim_id" and "claim_id < int (length claims)"
    and "run w (clock s) (proof_command (claims ! py_index claim_id (length claims)))
           = Completed rc out err"
  shows "\<exists>msg s' claims'.
           verify_claim w claim_id s = Inr ((rc = 0 \<and> strip out \<noteq> [], msg), s') \<and>
           claims_file s' = Some claims' \<and> length claims' = length claims \<and>
           verified (claims' ! py_index claim_id (length claims)) = (rc = 0 \<and> strip out \<noteq> [])"
proof -
  let ?i = "py_index claim_id (length claims)"
  from verify_claim_completed[OF assms] obtain msg s' where
    r: "verify_claim w claim_id s = Inr ((rc = 0 \<and> strip out \<noteq> [], msg), s')" and
    f: "claims_file s' = Some (claims[?i :=
              (claims ! ?i)\<lparr>verified := (rc = 0 \<and> strip out \<noteq> []),
                 actual_result := Some (strip out),
                 verification_timestamp := Some (date w (clock s + 1))\<rparr>])" by blast
  have "?i < length claims"
    using assms(2,3) by (rule py_index_lt)
  with r f show ?thesis by simp
qed

theorem verify_claim_flag_iff_witness:
  "\<exists>msg s' claims'.
     verify_claim example_world 0 (example_validator (Some [example_claim ''true'' True]))
       = Inr ((False, msg), s') \<and>
     claims_file s' = Some claims' \<and> length claims' = 1 \<and> \<not> verified (claims' ! 0)"
  using verify_claim_flag_iff[of "example_validator (Some [example_claim ''true'' True])"
          "[example_claim ''true'' True]" 0 example_world 0 "''''" "''''"]
  by (simp add: example_validator_def example_claim_def example_world_def py_index_def
        strip_def)

subsection \<open>The loop of \<open>verify_all_claims\<close>\<close>

lemma verify_claim_at:
  assumes "claims_file s = Some (pre @ x # rest)"
  shows "\<exists>msg s'. verify_claim w (int (length pre)) s
            = Inr ((success_of (run w (clock s) (proof_command x)), msg), s') \<and>
          claims_file s' = Some (pre @ stored_after w (clock s) x # rest) \<and>
          executed s' = executed s @ [proof_command x]"
  using assms
  by (cases "run w (clock s) (proof_command x)")
     (auto simp: verify_claim_def Let_def py_index_def success_of_def stored_after_def)

lemma stored_after_command: "proof_command (stored_after w n c) = proof_command c"
  by (simp add: stored_after_def split: run_outcome.splits)

lemma stored_after_verified:
  "\<not> verified c \<Longrightarrow> verified (stored_after w n c) = success_of (run w n (proof_command c))"
  by (simp add: stored_after_def success_of_def split: run_outcome.splits)

lemma loop_body_at:
  assumes "claims_file s = Some (pre @ x # rest)"
  shows "\<exists>s' x'. loop_body w (length pre) x (v, f) s
            = Inr ((if verified x \<or> success_of (run w (clock s) (proof_command x))
                    then (v + 1, f) else (v, f + 1)), s') \<and>
          claims_file s' = Some (pre @ x' # rest) \<and>
          proof_command x' = proof_command x \<and>
          verified x' = (verified x \<or> success_of (run w (clock s) (proof_command x))) \<and>
          executed s' = executed s @ map proof_command (pending [x])"
proof (cases "verified x")
  case True
  then show ?thesis using assms by (simp add: loop_body_def pending_def)
next
  case False
  from verify_claim_at[OF assms, of w] obtain msg s' where
    "verify_claim w (int (length pre)) s
            = Inr ((success_of (run w (clock s) (proof_command x)), msg), s')"
    "claims_file s' = Some (pre @ stored_after w (clock s) x # rest)"
    "executed s' = executed s @ [proof_command x]" by blast
  with False show ?thesis
    by (simp add: loop_body_def pending_def stored_after_verified stored_after_command)
qed

lemma verify_loop_at:
  assumes "claims_file s = Some (pre @ xs)"
  shows "\<exists>v' f' s' xs'. verify_loop w (enumerate (length pre) xs) (v, f) s = Inr ((v', f'), s') \<and>
          claims_file s' = Some (pre @ xs') \<and> length xs' = length xs \<and>
          v' + f' = v + f + length xs \<and>
          map proof_command xs' = map proof_command xs \<and>
          executed s' = executed s @ map proof_command (pending xs) \<and>
          (stationary w \<longrightarrow> v' = v + length (filter (passes w) xs) \<and>
                               map verified xs' = map (passes w) xs)"
  using assms
proof (induction xs arbitrary: pre s v f)
  case Nil
  then show ?case by (simp add: pending_def)
next
  case (Cons x xs)
  let ?ok = "verified x \<or> success_of (run w (clock s) (proof_command x))"
  from loop_body_at[OF Cons.prems, of w v f] obtain s1 x' where
    b: "loop_body w (length pre) x (v, f) s = Inr ((if ?ok then (v + 1, f) else (v, f + 1)), s1)"
    and f1: "claims_file s1 = Some (pre @ x' # xs)"
    and c1: "proof_command x' = proof_command x"
    and v1: "verified x' = ?ok"
    and e1: "executed s1 = executed s @ map proof_command (pending [x])" by blast
  from f1 have f1': "claims_file s1 = Some ((pre @ [x']) @ xs)" by simp
  obtain v1' f1' where vf: "(if ?ok then (v + 1, f) else (v, f + 1)) = (v1', f1')"
    by (cases "(if ?ok then (v + 1, f) else (v, f + 1))") auto
  from Cons.IH[OF f1', of v1' f1'] obtain v' f' s' xs' where
    l: "verify_loop w (enumerate (length (pre @ [x'])) xs) (v1', f1') s1 = Inr ((v', f'), s')"
    and f2: "claims_file s' = Some ((pre @ [x']) @ xs')" and len: "length xs' = length xs"
    and sum: "v' + f' = v1' + f1' + length xs"
    and cmds: "map proof_command xs' = map proof_command xs"
    and ex: "executed s' = executed s1 @ map proof_command (pending xs)"
    and st: "stationary w \<longrightarrow> v' = v1' + length (filter (passes w) xs) \<and>
                               map verified xs' = map (passes w) xs" by blast
  have ok_st: "stationary w \<Longrightarrow> ?ok = passes w x"
    unfolding stationary_def passes_def by metis
  have "verify_loop w (enumerate (length pre) (x # xs)) (v, f) s = Inr ((v', f'), s')"
    using b l vf by (simp add: enumerate_simps)
  moreover have "claims_file s' = Some (pre @ (x' # xs'))" using f2 by simp
  moreover have "length (x' # xs') = length (x # xs)" using len by simp
  moreover have "v' + f' = v + f + length (x # xs)" using sum vf by (auto split: if_splits)
  moreover have "map proof_command (x' # xs') = map proof_command (x # xs)"
    using cmds c1 by simp
  moreover have "executed s' = executed s @ map proof_command (pending (x # xs))"
    using ex e1 by (simp add: pending_def)
  moreover have "stationary w \<longrightarrow> v' = v + length (filter (passes w) (x # xs)) \<and>
                               map verified (x' # xs') = map (passes w) (x # xs)"
    using st vf v1 ok_st by (auto split: if_splits)
  ultimately show ?case by blast
qed

text \<open>What one call of \<open>verify_all_claims\<close> does to an existing claims file.\<close>

lemma verify_all_claims_Some:
  assumes "claims_file s = Some cs"
  shows "\<exists>v f s' cs'. verify_all_claims w s
            = Inr (\<lparr>stat_verified = v, stat_failed = f, stat_total = length cs\<rparr>, s') \<and>
          claims_file s' = Some cs' \<and> length cs' = length cs \<and>
          v + f = length cs \<and>
          map proof_command cs' = map proof_command cs \<and>
          executed s' = executed s @ map proof_command (pending cs) \<and>
          (stationary w \<longrightarrow> v = length (filter (passes w) cs) \<and>
                               map verified cs' = map (passes w) cs)"
proof -
  from assms have "claims_file s = Some ([] @ cs)" by simp
  from verify_loop_at[OF this, of w 0 0] obtain v f s' cs' where
    "verify_loop w (enumerate 0 cs) (0, 0) s = Inr ((v, f), s')"
    "claims_file s' = Some cs'" "length cs' = length cs" "v + f = length cs"
    "map proof_command cs' = map proof_command cs"
    "executed s' = executed s @ map proof_command (pending cs)"
    "stationary w \<longrightarrow> v = length (filter (passes w) cs) \<and> map verified cs' = map (passes w) cs"
    by auto
  with assms show ?thesis by (simp add: verify_all_claims_def)
qed

text \<open>
  C10. \<open>verify_all_claims\<close> always returns, and its counts satisfy
  \<open>verified + failed = total\<close>, where \<open>total\<close> is the number of stored claims;
  all three counts are 0 when the claims file does not exist.
\<close>

theorem verify_all_claims_counts:
  "\<exists>st s'. verify_all_claims w s = Inr (st, s') \<and>
     stat_verified st + stat_failed st = stat_total st \<and>
     stat_total st = length (stored s) \<and>
     (claims_file s = None \<longrightarrow>
        stat_verified st = 0 \<and> stat_failed st = 0 \<and> stat_total st = 0)"
proof (cases "claims_file s")
  case None
  then show ?thesis by (simp add: verify_all_claims_def stored_def)
next
  case (Some cs)
  from verify_all_claims_Some[OF Some, of w] obtain v f s' where
    "verify_all_claims w s
       = Inr (\<lparr>stat_verified = v, stat_failed = f, stat_total = length cs\<rparr>, s')"
    "v + f = length cs" by blast
  with Some show ?thesis by (simp add: stored_def)
qed

theorem verify_all_claims_counts_witness:
  "\<exists>st s'. verify_all_claims example_world (example_validator None) = Inr (st, s') \<and>
     stat_verified st = 0 \<and> stat_failed st = 0 \<and> stat_total st = 0"
  using verify_all_claims_counts[of example_world "example_validator None"]
  by (auto simp: example_validator_def)

subsection \<open>Calling \<open>verify_all_claims\<close> twice\<close>

lemma length_filter_map_bool: "length (filter (\<lambda>b. b) (map P xs)) = length (filter P xs)"
  by (induction xs) auto

lemma passes_again:
  assumes v: "map verified cs' = map (passes w) cs"
    and c: "map proof_command cs' = map proof_command cs"
  shows "map (passes w) cs' = map (passes w) cs"
proof (rule nth_equalityI)
  show "length (map (passes w) cs') = length (map (passes w) cs)"
    using v by (metis length_map)
next
  fix i assume "i < length (map (passes w) cs')"
  then have i': "i < length cs'" by simp
  then have i: "i < length cs" using v by (metis length_map)
  have "verified (cs' ! i) = passes w (cs ! i)"
    using v i i' by (metis nth_map)
  moreover have "proof_command (cs' ! i) = proof_command (cs ! i)"
    using c i i' by (metis nth_map)
  ultimately have "passes w (cs' ! i) = passes w (cs ! i)"
    by (auto simp: passes_def)
  then show "map (passes w) cs' ! i = map (passes w) cs ! i"
    using i i' by simp
qed

lemma length_pending: "length (pending cs) = length cs - length (filter verified cs)"
  using sum_length_filter_compl[of verified cs] by (simp add: pending_def)

text \<open>
  C2, as the code has it. In a world where a command does the same whenever it is
  run, a second call of \<open>verify_all_claims\<close>, with nothing done in between, returns
  the same counts as the first; it runs the proof command again of every claim whose
  stored flag is still false, and of no other claim, so it runs as many commands as
  the first call counted as failed (none when no claim failed).
\<close>

theorem verify_all_claims_twice:
  assumes "stationary w"
    and "verify_all_claims w s = Inr (r1, s1)"
    and "verify_all_claims w s1 = Inr (r2, s2)"
  shows "r2 = r1 \<and>
         executed s2 = executed s1 @ map proof_command (pending (stored s1)) \<and>
         length (pending (stored s1)) = stat_failed r1"
proof (cases "claims_file s")
  case None
  with assms show ?thesis
    by (auto simp: verify_all_claims_def stored_def pending_def)
next
  case (Some cs)
  from verify_all_claims_Some[OF Some, of w] assms(1,2) obtain v f cs' where
    r1: "r1 = \<lparr>stat_verified = v, stat_failed = f, stat_total = length cs\<rparr>"
    and f1: "claims_file s1 = Some cs'" and len: "length cs' = length cs"
    and sum: "v + f = length cs"
    and cmds: "map proof_command cs' = map proof_command cs"
    and v: "v = length (filter (passes w) cs)"
    and flags: "map verified cs' = map (passes w) cs" by auto
  from verify_all_claims_Some[OF f1, of w] assms(1,3) obtain v2 f2 where
    r2: "r2 = \<lparr>stat_verified = v2, stat_failed = f2, stat_total = length cs'\<rparr>"
    and sum2: "v2 + f2 = length cs'"
    and ex: "executed s2 = executed s1 @ map proof_command (pending cs')"
    and v2: "v2 = length (filter (passes w) cs')" by auto
  have "length (filter (passes w) cs') = length (filter (passes w) cs)"
    using passes_again[OF flags cmds] length_filter_map_bool[of "passes w"] by metis
  then have "v2 = v" using v v2 by simp
  moreover then have "f2 = f" using sum sum2 len by simp
  moreover have "length (filter verified cs') = v"
    using flags v length_filter_map_bool[of verified cs'] length_filter_map_bool[of "passes w" cs]
    by simp
  then have "length (pending cs') = f"
    using sum len by (simp add: length_pending)
  ultimately show ?thesis using r1 r2 len ex f1 by (simp add: stored_def)
qed

lemma stationary_example: "stationary example_world"
  by (simp add: stationary_def example_world_def)

lemma first_call:
  "verify_all_claims example_world example_failed_store =
     Inr (\<lparr>stat_verified = 0, stat_failed = 1, stat_total = 1\<rparr>,
          \<lparr>claims_file = Some [(example_claim ''exit 1'' False)\<lparr>actual_result := Some '''',
               verification_timestamp := Some ''1700000000''\<rparr>],
            failed_claims = [(example_claim ''exit 1'' False)\<lparr>actual_result := Some '''',
               verification_timestamp := Some ''1700000000''\<rparr>],
            verified_claims = [], clock = 2, executed = [''exit 1'']\<rparr>)"
  by (simp add: verify_all_claims_def example_failed_store_def example_validator_def
      enumerate_simps loop_body_def verify_claim_def py_index_def example_claim_def
      example_world_def strip_def Let_def)

theorem verify_all_claims_twice_witness:
  "stationary example_world \<and>
   fst (projr (verify_all_claims example_world
      (snd (projr (verify_all_claims example_world example_failed_store)))))
     = fst (projr (verify_all_claims example_world example_failed_store)) \<and>
   stat_failed (fst (projr (verify_all_claims example_world example_failed_store))) = 1 \<and>
   length (pending (stored (snd (projr (verify_all_claims example_world example_failed_store))))) = 1"
  using verify_all_claims_twice[OF stationary_example first_call, of
     "fst (projr (verify_all_claims example_world
      (snd (projr (verify_all_claims example_world example_failed_store)))))"
     "snd (projr (verify_all_claims example_world
      (snd (projr (verify_all_claims example_world example_failed_store)))))"]
    stationary_example first_call
  by (simp add: verify_all_claims_def 
      enumerate_simps loop_body_def verify_claim_def py_index_def example_claim_def
      example_world_def strip_def Let_def)

text \<open>
  The claim as stated fails: with one stored claim whose command exits with code 1,
  the first call runs the command once and the second call runs it again.
\<close>

theorem verify_all_claims_twice_counterexample:
  "executed (snd (projr (verify_all_claims example_world example_failed_store))) = [''exit 1''] \<and>
   executed (snd (projr (verify_all_claims example_world
      (snd (projr (verify_all_claims example_world example_failed_store))))))
     = [''exit 1'', ''exit 1'']"
  by (simp add: verify_all_claims_def example_failed_store_def example_validator_def
      enumerate_simps loop_body_def verify_claim_def py_index_def example_claim_def
      example_world_def strip_def Let_def)

subsection \<open>Timeouts, exceptions and claim IDs out of range\<close>

text \<open>No path but the completed one writes the claims file.\<close>

lemma verify_claim_file_kept:
  assumes "verify_claim w claim_id s = Inr (r, s')"
    and "claims_file s = Some claims"
    and "run w (clock s) (proof_command (claims ! py_index claim_id (length claims)))
           = TimeoutExpired \<or>
         (\<exists>e. run w (clock s) (proof_command (claims ! py_index claim_id (length claims)))
           = Raised e)"
  shows "claims_file s' = claims_file s"
  using assms by (auto simp: verify_claim_def Let_def split: if_splits)

text \<open>
  C3. The code at a proof command that times out, and at one that raises: the
  updated record (\<open>actual_result\<close> \<open>TIMEOUT\<close> or \<open>ERROR: ...\<close>, \<open>verified\<close> false) is
  appended to \<open>failed_claims\<close> only; the claims file keeps the record it had, whose
  \<open>actual_result\<close> is still \<open>None\<close>.
\<close>

theorem verify_claim_failure_not_persisted:
  "verify_claim example_world 0 (example_validator (Some [example_claim ''sleep 60'' False]))
     = Inr ((False, ''Verification command timed out''),
            \<lparr>claims_file = Some [example_claim ''sleep 60'' False],
              failed_claims = [(example_claim ''sleep 60'' False)
                                 \<lparr>verified := False, actual_result := Some ''TIMEOUT''\<rparr>],
              verified_claims = [], clock = 1, executed = [''sleep 60'']\<rparr>) \<and>
   actual_result (example_claim ''sleep 60'' False) = None \<and>
   verify_claim example_world 0 (example_validator (Some [example_claim ''cat x'' False]))
     = Inr ((False, ''Verification error: embedded null byte''),
            \<lparr>claims_file = Some [example_claim ''cat x'' False],
              failed_claims = [(example_claim ''cat x'' False)
                  \<lparr>verified := False, actual_result := Some ''ERROR: embedded null byte''\<rparr>],
              verified_claims = [], clock = 1, executed = [''cat x'']\<rparr>)"
  by (simp add: verify_claim_def example_validator_def example_claim_def example_world_def
        py_index_def Let_def)

lemma verify_claim_past_end:
  assumes "int (length (stored s)) \<le> claim_id" and "claims_file s \<noteq> None"
  shows "verify_claim w claim_id s = Inr ((False, ''Invalid claim ID''), s)"
  using assms by (auto simp: verify_claim_def stored_def)

text \<open>
  C4. The code at negative claim IDs, with one stored claim: ID \<open>-1\<close> verifies the
  last claim and rewrites the claims file, ID \<open>-2\<close> raises \<open>IndexError\<close>; neither
  returns the invalid-ID result that \<open>verify_claim_past_end\<close> shows for IDs at or
  past the end.
\<close>

theorem verify_claim_negative_id:
  "verify_claim example_world (- 1) (example_validator (Some [example_claim ''echo ok'' False]))
     = Inr ((True, ''ok''),
            \<lparr>claims_file = Some [(example_claim ''echo ok'' False)
                 \<lparr>verified := True, actual_result := Some ''ok'',
                  verification_timestamp := Some ''1700000000''\<rparr>],
              failed_claims = [],
              verified_claims = [(example_claim ''echo ok'' False)
                 \<lparr>verified := True, actual_result := Some ''ok'',
                  verification_timestamp := Some ''1700000000''\<rparr>],
              clock = 2, executed = [''echo ok'']\<rparr>) \<and>
   verify_claim example_world (- 2) (example_validator (Some [example_claim ''echo ok'' False]))
     = Inl IndexError"
  by (simp add: verify_claim_def example_validator_def example_claim_def example_world_def
        py_index_def Let_def strip_def py_isspace_def)

subsection \<open>Claim IDs\<close>

lemma verify_claim_identity:
  assumes "verify_claim w claim_id s = Inr (r, s')"
  shows "map identity (stored s') = map identity (stored s)"
proof (cases "claims_file s")
  case None
  with assms show ?thesis by (simp add: verify_claim_def)
next
  case (Some claims)
  show ?thesis
  proof (cases "- int (length claims) \<le> claim_id \<and> claim_id < int (length claims)")
    case False
    with assms Some show ?thesis
      by (auto simp: verify_claim_def split: if_splits)
  next
    case True
    let ?i = "py_index claim_id (length claims)"
    have i: "?i < length claims" using True by (simp add: py_index_lt)
    have upd: "map identity (claims[?i := c']) = map identity claims"
      if "identity c' = identity (claims ! ?i)" for c'
      using that i by (simp add: map_update list_update_same_conv)
    show ?thesis
    proof (cases "run w (clock s) (proof_command (claims ! ?i))")
      case (Completed rc out err)
      with assms Some True show ?thesis
        by (auto simp: verify_claim_def Let_def stored_def identity_def intro!: upd
                 split: if_splits)
    next
      case TimeoutExpired
      with assms Some True show ?thesis
        by (auto simp: verify_claim_def Let_def stored_def)
    next
      case (Raised e)
      with assms Some True show ?thesis
        by (auto simp: verify_claim_def Let_def stored_def)
    qed
  qed
qed

lemma log_claim_stored:
  "stored (snd (log_claim w text command expected s)) =
     stored s @ [\<lparr>timestamp = date w (clock s), claim_text = text,
                  proof_command = command, expected_result = expected,
                  verified = False, actual_result = None,
                  verification_timestamp = None\<rparr>]"
  by (simp add: log_claim_def stored_def Let_def)

lemma log_claim_id_eq: "fst (log_claim w text command expected s) = int (length (stored s))"
  by (simp add: log_claim_def stored_def Let_def)

lemma loop_body_identity:
  assumes "loop_body w i c counts s = Inr (counts', s')"
  shows "map identity (stored s') = map identity (stored s)"
  using assms verify_claim_identity
  by (auto simp: loop_body_def split: prod.splits if_splits sum.splits)

lemma verify_loop_identity:
  assumes "verify_loop w xs counts s = Inr (counts', s')"
  shows "map identity (stored s') = map identity (stored s)"
  using assms
proof (induction xs arbitrary: counts s)
  case Nil
  then show ?case by simp
next
  case (Cons x xs)
  obtain i c where x: "x = (i, c)" by (cases x)
  from Cons.prems x obtain counts1 s1 where
    b: "loop_body w i c counts s = Inr (counts1, s1)" and
    l: "verify_loop w xs counts1 s1 = Inr (counts', s')"
    by (auto split: sum.splits)
  from Cons.IH[OF l] loop_body_identity[OF b] show ?case by simp
qed

lemma verify_all_claims_identity:
  assumes "verify_all_claims w s = Inr (r, s')"
  shows "map identity (stored s') = map identity (stored s)"
  using assms verify_loop_identity
  by (auto simp: verify_all_claims_def split: option.splits sum.splits)

lemma demand_loop_identity:
  assumes "demand_loop w tbl text s = Inr (r, s')"
  shows "prefix (map identity (stored s)) (map identity (stored s'))"
  using assms
proof (induction tbl)
  case Nil
  then show ?case by simp
next
  case (Cons e tbl)
  obtain k command where e: "e = (k, command)" by (cases e)
  show ?case
  proof (cases "py_in (lower k) (lower text)")
    case False
    with Cons e show ?thesis by simp
  next
    case True
    obtain cid s1 where lg: "log_claim w text command ''Success expected'' s = (cid, s1)"
      by (cases "log_claim w text command ''Success expected'' s")
    with Cons.prems e True obtain r2 where "verify_claim w cid s1 = Inr (r2, s')"
      by (auto split: sum.splits if_splits)
    from verify_claim_identity[OF this] log_claim_stored[of w "text" command "''Success expected''" s] lg
    show ?thesis by simp
  qed
qed

lemma after_call_identity:
  "prefix (map identity (stored s)) (map identity (stored (after_call w s c)))"
proof (cases c)
  case (LogClaim t cmd e)
  then show ?thesis by (simp add: log_claim_stored)
next
  case (VerifyClaim i)
  then show ?thesis using verify_claim_identity[of w i s]
    by (auto split: sum.splits)
next
  case VerifyAllClaims
  then show ?thesis using verify_all_claims_identity[of w s]
    by (auto split: sum.splits)
next
  case (DemandProof t)
  then show ?thesis using demand_loop_identity[of w proof_commands t s]
    by (auto simp: demand_proof_for_claim_def split: sum.splits)
qed

lemma foldl_after_call_identity:
  "prefix (map identity (stored s)) (map identity (stored (foldl (after_call w) s calls)))"
proof (induction calls arbitrary: s)
  case Nil
  then show ?case by simp
next
  case (Cons c calls)
  from after_call_identity[of s w c] Cons.IH[of "after_call w s c"]
  show ?case by (auto intro: prefix_order.trans)
qed

text \<open>
  C8, as the code has it. \<open>log_claim\<close> appends the new claim to the store and
  returns its append position, the number of claims stored before: a non-negative
  integer, 0 for the first claim of an empty store. After any later calls of the
  validator's methods the claim is still stored at that position, the claims
  logged before it are still at theirs, and every ID that \<open>log_claim\<close> returns
  later is larger.
\<close>

theorem log_claim_id:
  assumes "log_claim w text command expected s = (cid, s1)"
  shows "cid = int (length (stored s)) \<and> 0 \<le> cid \<and>
         stored s1 = stored s @ [\<lparr>timestamp = date w (clock s), claim_text = text,
                  proof_command = command, expected_result = expected,
                  verified = False, actual_result = None,
                  verification_timestamp = None\<rparr>] \<and>
         (\<forall>calls. let s2 = foldl (after_call w) s1 calls in
            nat cid < length (stored s2) \<and>
            identity (stored s2 ! nat cid) = (date w (clock s), text, command, expected) \<and>
            take (length (stored s)) (map identity (stored s2)) = map identity (stored s) \<and>
            (\<forall>text' command' expected'.
               cid < fst (log_claim w text' command' expected' s2)))"
proof -
  let ?new = "\<lparr>timestamp = date w (clock s), claim_text = text,
                  proof_command = command, expected_result = expected,
                  verified = False, actual_result = None,
                  verification_timestamp = None\<rparr>"
  have cid: "cid = int (length (stored s))"
    using log_claim_id_eq[of w "text" command expected s] assms by simp
  have s1: "stored s1 = stored s @ [?new]"
    using log_claim_stored[of w "text" command expected s] assms by simp
  have later: "nat cid < length (stored s2) \<and>
            identity (stored s2 ! nat cid) = (date w (clock s), text, command, expected) \<and>
            take (length (stored s)) (map identity (stored s2)) = map identity (stored s) \<and>
            (\<forall>text' command' expected'.
               cid < fst (log_claim w text' command' expected' s2))"
    if s2: "s2 = foldl (after_call w) s1 calls" for s2 calls
  proof -
    from foldl_after_call_identity[of s1 w calls] s2
    obtain zs where zs: "map identity (stored s2) = map identity (stored s1) @ zs"
      by (auto simp: prefix_def)
    then have m: "map identity (stored s2) = map identity (stored s) @ identity ?new # zs"
      using s1 by simp
    have "length (map identity (stored s2)) = length (map identity (stored s) @ identity ?new # zs)"
      using m by (rule arg_cong)
    then have len: "length (stored s2) = length (stored s) + 1 + length zs"
      by simp
    have "map identity (stored s2) ! length (map identity (stored s)) = identity ?new"
      unfolding m by (rule nth_append_length)
    then have n: "identity (stored s2 ! length (stored s)) = identity ?new"
      using len by simp
    have t: "take (length (stored s)) (map identity (stored s2)) = map identity (stored s)"
      unfolding m by simp
    have i: "identity ?new = (date w (clock s), text, command, expected)"
      by (simp add: identity_def)
    have l: "cid < fst (log_claim w text' command' expected' s2)" for text' command' expected'
      unfolding log_claim_id_eq cid using len by simp
    have "nat cid = length (stored s)" using cid by simp
    with n t i l len show ?thesis by simp
  qed
  have "0 \<le> cid" using cid by simp
  with cid s1 later show ?thesis unfolding Let_def by blast
qed

theorem log_claim_id_witness:
  "fst (log_claim example_world ''server running'' ''true'' ''Success expected''
                 (example_validator None)) = 0 \<and>
   fst (log_claim example_world ''api responding'' ''true'' ''Success expected''
         (foldl (after_call example_world)
            (snd (log_claim example_world ''server running'' ''true'' ''Success expected''
                 (example_validator None))) [VerifyClaim 0])) = 1"
  using log_claim_id[of example_world "''server running''" "''true''" "''Success expected''"
          "example_validator None" 0
          "snd (log_claim example_world ''server running'' ''true'' ''Success expected''
                 (example_validator None))"]
  by (simp add: log_claim_def example_validator_def verify_claim_def py_index_def
        example_world_def strip_def Let_def)

text \<open>The claim as stated fails: the first ID of an empty store is 0, not positive.\<close>

theorem log_claim_id_counterexample:
  "\<not> 0 < fst (log_claim example_world ''server running'' ''true'' ''Success expected''
                 (example_validator None))"
  by (simp add: log_claim_def example_validator_def)

subsection \<open>\<open>demand_proof_for_claim\<close>\<close>

lemma py_in_sublist: "py_in sub s = sublist sub s"
  by (induction s) (auto simp: sublist_Cons_right)

lemma log_then_verify:
  assumes "log_claim w text command expected s = (cid, s1)"
  shows "\<exists>success msg s2 c. verify_claim w cid s1 = Inr ((success, msg), s2) \<and>
           executed s2 = executed s @ [command] \<and>
           stored s2 = stored s @ [c] \<and> claim_text c = text \<and> proof_command c = command \<and>
           verified c = success"
proof -
  let ?new = "\<lparr>timestamp = date w (clock s), claim_text = text,
                  proof_command = command, expected_result = expected,
                  verified = False, actual_result = None,
                  verification_timestamp = None\<rparr>"
  have cid: "cid = int (length (stored s))"
    using log_claim_id_eq[of w "text" command expected s] assms by simp
  have f: "claims_file s1 = Some (stored s @ ?new # [])"
    using assms by (auto simp: log_claim_def stored_def Let_def)
  have e: "executed s1 = executed s"
    using assms by (auto simp: log_claim_def Let_def)
  from verify_claim_at[OF f, of w] obtain msg s2 where
    v: "verify_claim w (int (length (stored s))) s1
          = Inr ((success_of (run w (clock s1) (proof_command ?new)), msg), s2)"
    and f2: "claims_file s2 = Some (stored s @ stored_after w (clock s1) ?new # [])"
    and e2: "executed s2 = executed s1 @ [proof_command ?new]" by blast
  have "claim_text (stored_after w (clock s1) ?new) = text"
    by (simp add: stored_after_def split: run_outcome.splits)
  moreover have "proof_command (stored_after w (clock s1) ?new) = command"
    by (simp add: stored_after_command)
  moreover have "verified (stored_after w (clock s1) ?new)
                   = success_of (run w (clock s1) (proof_command ?new))"
    by (simp add: stored_after_verified)
  moreover have "stored s2 = stored s @ [stored_after w (clock s1) ?new]"
    using f2 by (simp add: stored_def)
  ultimately show ?thesis using v e e2 cid by auto
qed

lemma demand_loop_no_match:
  assumes "find (matches text) tbl = None"
  shows "demand_loop w tbl text s = Inr (None, s)"
  using assms
proof (induction tbl)
  case Nil
  then show ?case by simp
next
  case (Cons e tbl)
  obtain k command where e: "e = (k, command)" by (cases e)
  with Cons show ?case
    by (simp add: matches_def py_in_sublist split: if_splits)
qed

lemma demand_loop_match:
  assumes "find (matches text) tbl = Some (k, command)"
  shows "\<exists>cid s1 success msg s2 c.
           log_claim w text command ''Success expected'' s = (cid, s1) \<and>
           verify_claim w cid s1 = Inr ((success, msg), s2) \<and>
           demand_loop w tbl text s = Inr (if success then Some cid else None, s2) \<and>
           executed s2 = executed s @ [command] \<and>
           stored s2 = stored s @ [c] \<and> claim_text c = text \<and> proof_command c = command \<and>
           verified c = success"
  using assms
proof (induction tbl)
  case Nil
  then show ?case by simp
next
  case (Cons e tbl)
  obtain k' command' where e: "e = (k', command')" by (cases e)
  show ?case
  proof (cases "matches text e")
    case False
    with Cons e show ?thesis by (simp add: matches_def py_in_sublist)
  next
    case True
    with Cons.prems e have eq: "k' = k" "command' = command" by auto
    obtain cid s1 where lg: "log_claim w text command ''Success expected'' s = (cid, s1)"
      by (cases "log_claim w text command ''Success expected'' s")
    from log_then_verify[OF lg] obtain success msg s2 c where
      "verify_claim w cid s1 = Inr ((success, msg), s2)"
      "executed s2 = executed s @ [command]"
      "stored s2 = stored s @ [c]" "claim_text c = text" "proof_command c = command"
      "verified c = success" by blast
    with lg True e eq show ?thesis
      by (simp add: matches_def py_in_sublist)
  qed
qed

text \<open>
  C9. When some key of the table is a case-insensitive substring of the claim
  text, \<open>demand_proof_for_claim\<close> logs one new claim with that text and the command
  of the first such key, verifies it at once (running that command and no other),
  and returns its ID if the verification succeeded and \<open>None\<close> if not. When no
  key is, it returns \<open>None\<close> and leaves the validator and the claims file as they
  were.
\<close>

theorem demand_proof_for_claim_cases:
  "(case find (matches text) proof_commands of
      None \<Rightarrow>
        \<not> (\<exists>k \<in> fst ` set proof_commands. sublist (lower k) (lower text)) \<and>
        demand_proof_for_claim w text s = Inr (None, s)
    | Some (k, command) \<Rightarrow>
        (k, command) \<in> set proof_commands \<and> sublist (lower k) (lower text) \<and>
        (\<exists>cid s1 success msg s2 c.
           log_claim w text command ''Success expected'' s = (cid, s1) \<and>
           verify_claim w cid s1 = Inr ((success, msg), s2) \<and>
           demand_proof_for_claim w text s = Inr (if success then Some cid else None, s2) \<and>
           executed s2 = executed s @ [command] \<and>
           stored s2 = stored s @ [c] \<and> claim_text c = text \<and> proof_command c = command \<and>
           verified c = success))"
proof (cases "find (matches text) proof_commands")
  case None
  then have "\<not> (\<exists>e \<in> set proof_commands. matches text e)"
    by (auto simp: find_None_iff)
  then have "\<not> (\<exists>k \<in> fst ` set proof_commands. sublist (lower k) (lower text))"
    by (auto simp: matches_def)
  with None demand_loop_no_match[OF None, of w s] show ?thesis
    by (simp add: demand_proof_for_claim_def)
next
  case (Some e)
  obtain k command where e: "e = (k, command)" by (cases e)
  from Some e have f: "find (matches text) proof_commands = Some (k, command)" by simp
  then have "(k, command) \<in> set proof_commands" "matches text (k, command)"
    by (auto simp: find_Some_iff)
  with f demand_loop_match[OF f, of w s] show ?thesis
    by (simp add: demand_proof_for_claim_def matches_def)
qed

lemma find_api:
  "find (matches ''API Responding'') proof_commands
     = Some (''api responding'', ''curl -s http://localhost:8890/api/stats'')"
  by code_simp

lemma find_memory_server:
  "find (matches ''Enhanced memory server is running'') proof_commands = None"
  by code_simp

theorem demand_proof_for_claim_cases_witness:
  "(\<exists>r s2. demand_proof_for_claim example_world ''API Responding'' (example_validator None)
             = Inr (r, s2) \<and>
           executed s2 = [''curl -s http://localhost:8890/api/stats''] \<and>
           length (stored s2) = 1) \<and>
   demand_proof_for_claim example_world ''Enhanced memory server is running''
      (example_validator None) = Inr (None, example_validator None)"
  using demand_proof_for_claim_cases[of "''API Responding''" example_world
          "example_validator None"]
        demand_proof_for_claim_cases[of "''Enhanced memory server is running''" example_world
          "example_validator None"]
  unfolding find_api find_memory_server
  by (auto simp: example_validator_def stored_def)

section \<open>Properties of the hook orchestrator\<close>


lemma run_checks_append: "run_checks (xs @ ys) h = run_checks ys (run_checks xs h)"
  by (induction xs arbitrary: h) auto

lemma run_check_count:
  "length (checks_passed (run_check entry h)) + length (checks_failed (run_check entry h))
     = length (checks_passed h) + length (checks_failed h) + 1"
  by (auto simp: run_check_def split: prod.splits check_result.splits)

lemma run_checks_count:
  "length (checks_passed (run_checks cs h)) + length (checks_failed (run_checks cs h))
     = length (checks_passed h) + length (checks_failed h) + length cs"
proof (induction cs arbitrary: h)
  case Nil
  then show ?case by simp
next
  case (Cons entry cs)
  show ?case using Cons.IH[of "run_check entry h"] run_check_count[of entry h] by simp
qed

lemma run_check_keeps:
  "prefix (checks_passed h) (checks_passed (run_check entry h)) \<and>
   prefix (checks_failed h) (checks_failed (run_check entry h))"
  by (auto simp: run_check_def split: prod.splits check_result.splits)

lemma run_checks_keeps:
  "prefix (checks_passed h) (checks_passed (run_checks cs h)) \<and>
   prefix (checks_failed h) (checks_failed (run_checks cs h))"
proof (induction cs arbitrary: h)
  case Nil
  then show ?case by simp
next
  case (Cons entry cs)
  from Cons.IH[of "run_check entry h"] run_check_keeps[of h entry]
  show ?case by (auto intro: prefix_order.trans)
qed

lemma run_checks_subset:
  "set (checks_passed h) \<subseteq> set (checks_passed (run_checks cs h)) \<and>
   set (checks_failed h) \<subseteq> set (checks_failed (run_checks cs h))"
  using run_checks_keeps[of h cs] by (auto dest: set_mono_prefix)

lemma run_check_recorded:
  "fst entry \<in> set (checks_passed (run_check entry h)) \<or>
   (\<exists>x \<in> set (checks_failed (run_check entry h)). prefix (fst entry) x)"
  by (auto simp: run_check_def split: prod.splits check_result.splits)

lemma run_checks_recorded:
  assumes "entry \<in> set cs"
  shows "fst entry \<in> set (checks_passed (run_checks cs h)) \<or>
         (\<exists>x \<in> set (checks_failed (run_checks cs h)). prefix (fst entry) x)"
  using assms
proof (induction cs arbitrary: h)
  case Nil
  then show ?case by simp
next
  case (Cons a cs)
  show ?case
  proof (cases "entry = a")
    case True
    from run_checks_subset[of "run_check a h" cs]
    have "set (checks_passed (run_check a h)) \<subseteq> set (checks_passed (run_checks cs (run_check a h)))"
         "set (checks_failed (run_check a h)) \<subseteq> set (checks_failed (run_checks cs (run_check a h)))"
      by blast+
    with run_check_recorded[of a h] True show ?thesis by auto
  next
    case False
    with Cons.prems have "entry \<in> set cs" by simp
    from Cons.IH[OF this, of "run_check a h"] show ?thesis by simp
  qed
qed

lemma run_all_checks_raised:
  assumes "checks sys = pre @ (name, check) # post"
    and "check (violations (run_checks pre h)) = (CheckRaised e, vs)"
  shows "\<exists>h'. run_all_checks sys h = (checks_failed h' = [], h') \<and>
           h' = run_checks post ((run_checks pre h)\<lparr>violations := vs,
                   checks_failed := checks_failed (run_checks pre h) @ [name @ '': '' @ e]\<rparr>) \<and>
           name @ '': '' @ e \<in> set (checks_failed h') \<and>
           (\<forall>entry \<in> set post. fst entry \<in> set (checks_passed h') \<or>
                                (\<exists>x \<in> set (checks_failed h'). prefix (fst entry) x)) \<and>
           length (checks_passed h') + length (checks_failed h')
             = length (checks_passed h) + length (checks_failed h) + length (checks sys)"
proof -
  let ?h1 = "run_checks pre h"
  let ?h2 = "?h1\<lparr>violations := vs, checks_failed := checks_failed ?h1 @ [name @ '': '' @ e]\<rparr>"
  let ?h' = "run_checks post ?h2"
  have step: "run_check (name, check) ?h1 = ?h2"
    using assms(2) by (simp add: run_check_def)
  have all: "run_checks (checks sys) h = ?h'"
    using assms(1) step by (simp add: run_checks_append)
  have "name @ '': '' @ e \<in> set (checks_failed ?h2)" by simp
  moreover have "set (checks_failed ?h2) \<subseteq> set (checks_failed ?h')"
    using run_checks_subset[of ?h2 post] by blast
  ultimately have entry: "name @ '': '' @ e \<in> set (checks_failed ?h')" by blast
  have later: "\<forall>entry \<in> set post. fst entry \<in> set (checks_passed ?h') \<or>
                                (\<exists>x \<in> set (checks_failed ?h'). prefix (fst entry) x)"
    using run_checks_recorded[of _ post ?h2] by blast
  have count: "length (checks_passed ?h') + length (checks_failed ?h')
             = length (checks_passed h) + length (checks_failed h) + length (checks sys)"
    using run_checks_count[of "checks sys" h] all by simp
  have "run_all_checks sys h = (checks_failed ?h' = [], ?h')"
    using all by (simp add: run_all_checks_def Let_def)
  with entry later count show ?thesis by blast
qed

text \<open>
  C5. \<open>run_all_checks\<close> runs the whole list in one pass: every check is recorded
  (its name in \<open>checks_passed\<close>, or an entry starting with its name in
  \<open>checks_failed\<close>) and adds exactly one entry to one of the two lists, and the
  result is true if and only if \<open>checks_failed\<close> is empty at the end. When a check of
  the list raises, the exception is caught: the entry \<open>"<check name>: <error>"\<close> is
  appended to \<open>checks_failed\<close> and the loop goes on with the checks after it, each
  of which is recorded too.
\<close>

theorem run_all_checks_exception:
  "fst (run_all_checks sys h) = (checks_failed (snd (run_all_checks sys h)) = []) \<and>
   snd (run_all_checks sys h) = run_checks (checks sys) h \<and>
   (\<forall>entry \<in> set (checks sys).
      fst entry \<in> set (checks_passed (snd (run_all_checks sys h))) \<or>
      (\<exists>x \<in> set (checks_failed (snd (run_all_checks sys h))). prefix (fst entry) x)) \<and>
   length (checks_passed (snd (run_all_checks sys h))) +
     length (checks_failed (snd (run_all_checks sys h)))
       = length (checks_passed h) + length (checks_failed h) + length (checks sys) \<and>
   (checks sys = pre @ (name, check) # post \<and>
    check (violations (run_checks pre h)) = (CheckRaised e, vs) \<longrightarrow>
      (\<exists>h'. run_all_checks sys h = (checks_failed h' = [], h') \<and>
           h' = run_checks post ((run_checks pre h)\<lparr>violations := vs,
                   checks_failed := checks_failed (run_checks pre h) @ [name @ '': '' @ e]\<rparr>) \<and>
           name @ '': '' @ e \<in> set (checks_failed h') \<and>
           (\<forall>entry \<in> set post. fst entry \<in> set (checks_passed h') \<or>
                                (\<exists>x \<in> set (checks_failed h'). prefix (fst entry) x)) \<and>
           length (checks_passed h') + length (checks_failed h')
             = length (checks_passed h) + length (checks_failed h) + length (checks sys)))"
proof (intro conjI impI)
  show "fst (run_all_checks sys h) = (checks_failed (snd (run_all_checks sys h)) = [])"
    by (simp add: run_all_checks_def Let_def)
  show s: "snd (run_all_checks sys h) = run_checks (checks sys) h"
    by (simp add: run_all_checks_def Let_def)
  show "\<forall>entry \<in> set (checks sys).
      fst entry \<in> set (checks_passed (snd (run_all_checks sys h))) \<or>
      (\<exists>x \<in> set (checks_failed (snd (run_all_checks sys h))). prefix (fst entry) x)"
    unfolding s using run_checks_recorded[of _ "checks sys" h] by blast
  show "length (checks_passed (snd (run_all_checks sys h))) +
     length (checks_failed (snd (run_all_checks sys h)))
       = length (checks_passed h) + length (checks_failed h) + length (checks sys)"
    unfolding s by (rule run_checks_count)
next
  assume "checks sys = pre @ (name, check) # post \<and>
    check (violations (run_checks pre h)) = (CheckRaised e, vs)"
  then have "checks sys = pre @ (name, check) # post"
    and "check (violations (run_checks pre h)) = (CheckRaised e, vs)" by simp_all
  then show "\<exists>h'. run_all_checks sys h = (checks_failed h' = [], h') \<and>
           h' = run_checks post ((run_checks pre h)\<lparr>violations := vs,
                   checks_failed := checks_failed (run_checks pre h) @ [name @ '': '' @ e]\<rparr>) \<and>
           name @ '': '' @ e \<in> set (checks_failed h') \<and>
           (\<forall>entry \<in> set post. fst entry \<in> set (checks_passed h') \<or>
                                (\<exists>x \<in> set (checks_failed h'). prefix (fst entry) x)) \<and>
           length (checks_passed h') + length (checks_failed h')
             = length (checks_passed h) + length (checks_failed h) + length (checks sys)"
    by (rule run_all_checks_raised)
qed

theorem run_all_checks_exception_witness:
  "run_all_checks example_host fresh_hook_system =
     (False,
      \<lparr>violations = [''task-master-ai missing''],
        checks_passed = [''check_memory'', ''check_claude_md'', ''check_mcp_servers'',
                         ''check_roadmap'', ''check_patterns'', ''check_monitoring''],
        checks_failed = [''check_docker: [Errno 2] No such file or directory'',
                         ''check_task_master'']\<rparr>) \<and>
   run_all_checks example_host_ok fresh_hook_system =
     (True,
      \<lparr>violations = [],
        checks_passed = [''check_memory'', ''check_claude_md'', ''check_docker'',
                         ''check_mcp_servers'', ''check_task_master'', ''check_roadmap'',
                         ''check_patterns'', ''check_monitoring''],
        checks_failed = []\<rparr>)"
proof -
  have raised: "checks example_host =
          [(''check_memory'', check_memory example_host),
           (''check_claude_md'', check_claude_md example_host)]
          @ (''check_docker'', check_docker example_host) #
          [(''check_mcp_servers'', check_mcp_servers example_host),
           (''check_task_master'', check_task_master example_host),
           (''check_roadmap'', check_roadmap example_host),
           (''check_patterns'', check_patterns example_host),
           (''check_monitoring'', check_monitoring example_host)] \<and>
        check_docker example_host
          (violations (run_checks [(''check_memory'', check_memory example_host),
              (''check_claude_md'', check_claude_md example_host)] fresh_hook_system))
          = (CheckRaised ''[Errno 2] No such file or directory'', [])"
    by (simp add: checks_def run_check_def check_memory_def check_claude_md_def
          check_docker_def example_host_def fresh_hook_system_def)
  have "run_all_checks example_host fresh_hook_system =
     (False,
      \<lparr>violations = [''task-master-ai missing''],
        checks_passed = [''check_memory'', ''check_claude_md'', ''check_mcp_servers'',
                         ''check_roadmap'', ''check_patterns'', ''check_monitoring''],
        checks_failed = [''check_docker: [Errno 2] No such file or directory'',
                         ''check_task_master'']\<rparr>)"
    using raised run_all_checks_exception[of example_host fresh_hook_system
          "[(''check_memory'', check_memory example_host),
            (''check_claude_md'', check_claude_md example_host)]"
          "''check_docker''" "check_docker example_host"
          "[(''check_mcp_servers'', check_mcp_servers example_host),
            (''check_task_master'', check_task_master example_host),
            (''check_roadmap'', check_roadmap example_host),
            (''check_patterns'', check_patterns example_host),
            (''check_monitoring'', check_monitoring example_host)]"
          "''[Errno 2] No such file or directory''" "[]"]
    by (simp add: run_check_def check_memory_def check_claude_md_def
        check_docker_def check_mcp_servers_def check_task_master_def check_roadmap_def
        check_patterns_def check_monitoring_def monitoring_scripts_def example_host_def
        fresh_hook_system_def)
  moreover have "checks_failed (run_checks (checks example_host_ok) fresh_hook_system) = []"
    by (simp add: checks_def run_check_def check_memory_def check_claude_md_def
        check_docker_def check_mcp_servers_def check_task_master_def check_roadmap_def
        check_patterns_def check_monitoring_def monitoring_scripts_def example_host_ok_def
        example_host_def fresh_hook_system_def strip_def py_isspace_def)
  then have "fst (run_all_checks example_host_ok fresh_hook_system) = True"
    using run_all_checks_exception[of example_host_ok fresh_hook_system] by simp
  moreover have "snd (run_all_checks example_host_ok fresh_hook_system) =
      \<lparr>violations = [],
        checks_passed = [''check_memory'', ''check_claude_md'', ''check_docker'',
                         ''check_mcp_servers'', ''check_task_master'', ''check_roadmap'',
                         ''check_patterns'', ''check_monitoring''],
        checks_failed = []\<rparr>"
    by (simp add: run_all_checks_def checks_def run_check_def check_memory_def
        check_claude_md_def
        check_docker_def check_mcp_servers_def check_task_master_def check_roadmap_def
        check_patterns_def check_monitoring_def monitoring_scripts_def example_host_ok_def
        example_host_def fresh_hook_system_def strip_def py_isspace_def)
  ultimately show ?thesis by (simp add: prod_eq_iff)
qed

section \<open>Properties of the pattern scores and the decision confidence\<close>

subsection \<open>Rounding to an integer\<close>

lemma round_half_even_cases:
  "round_half_even x = \<lfloor>x\<rfloor> \<or> round_half_even x = \<lfloor>x\<rfloor> + 1"
  by (simp add: round_half_even_def Let_def)

lemma round_half_even_error: "\<bar>of_int (round_half_even x) - x\<bar> \<le> 1 / 2"
proof -
  define f where "f = \<lfloor>x\<rfloor>"
  define d where "d = x - of_int f"
  have r: "round_half_even x =
             (if d < 1 / 2 then f else if 1 / 2 < d then f + 1
              else if even f then f else f + 1)"
    by (simp add: round_half_even_def Let_def f_def d_def)
  have "0 \<le> d" "d < 1" unfolding d_def f_def by linarith+
  moreover have "x = of_int f + d" by (simp add: d_def)
  ultimately show ?thesis unfolding r by (auto simp: abs_if)
qed

lemma round_half_even_le_int:
  assumes "x \<le> of_int n"
  shows "round_half_even x \<le> n"
proof (cases "x = of_int n")
  case True
  then show ?thesis by (simp add: round_half_even_def Let_def)
next
  case False
  with assms have "x < of_int n" by simp
  then have "\<lfloor>x\<rfloor> < n" by (simp add: floor_less_iff)
  with round_half_even_cases[of x] show ?thesis by auto
qed

lemma round_half_even_below_half:
  assumes "x < of_int n + 1 / 2"
  shows "round_half_even x \<le> n"
proof (cases "x < of_int n")
  case True
  then show ?thesis using round_half_even_le_int[of x n] by simp
next
  case False
  then have f: "\<lfloor>x\<rfloor> = n" using assms by (simp add: floor_eq_iff)
  then show ?thesis using assms by (simp add: round_half_even_def Let_def)
qed

lemma round_half_even_nonneg: "0 \<le> x \<Longrightarrow> 0 \<le> round_half_even x"
  using round_half_even_cases[of x] by (auto simp: zero_le_floor)

subsection \<open>The spacing\<close>

lemma doublings_le: "doublings n a \<le> n"
  by (induction n arbitrary: a) auto

lemma doublings_reaches:
  "a < 1 \<Longrightarrow> doublings n a = n \<or> 1 \<le> a * 2 ^ doublings n a"
proof (induction n arbitrary: a)
  case 0
  then show ?case by simp
next
  case (Suc n)
  show ?case
  proof (cases "2 * a < 1")
    case True
    from Suc.IH[OF True] Suc.prems show ?thesis by (auto simp: mult.assoc)
  next
    case False
    with Suc.prems show ?thesis by (cases n) auto
  qed
qed

lemma quantum_below_1:
  assumes "a < 1"
  shows "\<exists>k. 1 \<le> k \<and> k \<le> 1022 \<and> quantum a = 1 / 2 ^ (k + 52) \<and>
           (a < 1 / 2 \<longrightarrow> 2 \<le> k) \<and> (k = 1022 \<or> 1 \<le> a * 2 ^ k)"
proof -
  let ?k = "doublings 1022 a"
  have "?k = Suc (doublings 1021 (2 * a))"
    using assms by (simp add: numeral_eq_Suc)
  then have "1 \<le> ?k" by simp
  moreover have "?k \<le> 1022" by (rule doublings_le)
  moreover have "quantum a = 1 / 2 ^ (?k + 52)" using assms by (simp add: quantum_def)
  moreover have "a < 1 / 2 \<longrightarrow> 2 \<le> ?k"
  proof
    assume "a < 1 / 2"
    then have "2 * a < 1" by simp
    then have "doublings 1021 (2 * a) = Suc (doublings 1020 (2 * (2 * a)))"
      by (simp add: numeral_eq_Suc)
    with \<open>?k = Suc (doublings 1021 (2 * a))\<close> show "2 \<le> ?k" by simp
  qed
  moreover have "?k = 1022 \<or> 1 \<le> a * 2 ^ ?k"
    using doublings_reaches[OF assms, of 1022] by simp
  ultimately show ?thesis by blast
qed

lemma quantum_half: "1 / 2 \<le> a \<Longrightarrow> a < 1 \<Longrightarrow> quantum a = 1 / 2 ^ 53"
  by (simp add: quantum_def numeral_eq_Suc)

lemma quantum_pos: "0 < quantum a"
  by (simp add: quantum_def)

lemma quantum_le: "a < 1 \<Longrightarrow> quantum a \<le> 1 / 2 ^ 53"
proof -
  assume "a < 1"
  from quantum_below_1[OF this] obtain k where k: "1 \<le> k" "quantum a = 1 / 2 ^ (k + 52)"
    by blast
  have "(2::real) ^ 53 \<le> 2 ^ (k + 52)"
    using k(1) by (intro power_increasing) auto
  then show ?thesis using k(2) by (simp add: frac_le)
qed

lemma quantum_relative:
  assumes "0 \<le> a" "a < 1"
  shows "quantum a \<le> a / 2 ^ 52 + 1 / 2 ^ 1074"
proof -
  from quantum_below_1[OF assms(2)] obtain k where
    q: "quantum a = 1 / 2 ^ (k + 52)" and r: "k = 1022 \<or> 1 \<le> a * 2 ^ k" by blast
  from r show ?thesis
  proof
    assume "k = 1022"
    with q assms(1) show ?thesis by simp
  next
    assume "1 \<le> a * 2 ^ k"
    then have "1 / 2 ^ (k + 52) \<le> a * 2 ^ k / 2 ^ (k + 52)"
      by (simp add: divide_right_mono)
    also have "\<dots> = a / 2 ^ 52" by (simp add: power_add)
    finally show ?thesis using q by simp
  qed
qed

subsection \<open>Rounding to binary64\<close>

lemma fl_nonneg_eq:
  "0 \<le> x \<Longrightarrow> fl x = of_int (round_half_even (x / quantum x)) * quantum x"
  by (cases "x = 0") (simp_all add: fl_def round_half_even_def)

lemma fl_nonneg: "0 \<le> x \<Longrightarrow> 0 \<le> fl x"
  using quantum_pos[of x] round_half_even_nonneg[of "x / quantum x"]
  by (simp add: fl_nonneg_eq)

lemma fl_error:
  assumes "0 \<le> x"
  shows "\<bar>fl x - x\<bar> \<le> quantum x / 2"
proof -
  let ?q = "quantum x"
  have q: "0 < ?q" by (rule quantum_pos)
  have "fl x - x = (of_int (round_half_even (x / ?q)) - x / ?q) * ?q"
    using q assms by (simp add: fl_nonneg_eq left_diff_distrib)
  then have "\<bar>fl x - x\<bar> = \<bar>of_int (round_half_even (x / ?q)) - x / ?q\<bar> * \<bar>?q\<bar>"
    by (simp only: abs_mult)
  also have "\<dots> = \<bar>of_int (round_half_even (x / ?q)) - x / ?q\<bar> * ?q"
    using q by simp
  also have "\<dots> \<le> (1 / 2) * ?q"
    using round_half_even_error[of "x / ?q"] q by (intro mult_right_mono) auto
  finally show ?thesis by simp
qed

lemma fl_le_grid:
  assumes "0 \<le> x" and "x \<le> of_int n * quantum x"
  shows "fl x \<le> of_int n * quantum x"
proof -
  have q: "0 < quantum x" by (rule quantum_pos)
  then have "x / quantum x \<le> of_int n" using assms(2) by (simp add: pos_divide_le_eq)
  then have "round_half_even (x / quantum x) \<le> n" by (rule round_half_even_le_int)
  then have "of_int (round_half_even (x / quantum x)) * quantum x \<le> of_int n * quantum x"
    using q by (simp add: mult_right_mono)
  then show ?thesis using assms(1) by (simp add: fl_nonneg_eq)
qed

text \<open>Rounding never crosses \<open>m / 2 ^ 53\<close> from below, for an integer \<open>m\<close>.\<close>

lemma fl_le_multiple:
  assumes "0 \<le> x" and "x < 1" and "x \<le> of_int m / 2 ^ 53"
  shows "fl x \<le> of_int m / 2 ^ 53"
proof -
  from quantum_below_1[OF assms(2)] obtain k where
    k: "1 \<le> k" and q: "quantum x = 1 / 2 ^ (k + 52)" by blast
  obtain j where j: "k = Suc j" using k by (cases k) auto
  have e: "of_int m / 2 ^ 53 = of_int (m * 2 ^ j) * quantum x"
    using q j by (simp add: power_add)
  have "x \<le> of_int (m * 2 ^ j) * quantum x" using assms(3) unfolding e .
  then have "fl x \<le> of_int (m * 2 ^ j) * quantum x" by (rule fl_le_grid[OF assms(1)])
  then show ?thesis unfolding e .
qed

subsection \<open>The update of a score\<close>

lemma doublings_numeral:
  "doublings (numeral n) a = (if a < 1 then Suc (doublings (pred_numeral n) (2 * a)) else 0)"
  by (simp add: numeral_eq_Suc)

lemma halvings_numeral:
  "halvings (numeral n) a = (if 2 \<le> a then Suc (halvings (pred_numeral n) (a / 2)) else 0)"
  by (simp add: numeral_eq_Suc)

lemmas fl_eval = fl_def quantum_def round_half_even_def doublings_numeral halvings_numeral
  Let_def

lemma fl_7_10: "fl (7 / 10) = 6305039478318694 / 2 ^ 53"
  by (simp add: fl_eval)

lemma fl_3_10: "fl (3 / 10) = 5404319552844595 / 2 ^ 54"
  by (simp add: fl_eval)

lemma fl_3_10_fixed: "fl (5404319552844595 / 2 ^ 54) = 5404319552844595 / 2 ^ 54"
  by (simp add: fl_eval)

lemma fl_0: "fl 0 = 0"
  by (simp add: fl_def)

lemma ema_update_True:
  "ema_update s True = fl (fl (6305039478318694 / 2 ^ 53 * s) + 5404319552844595 / 2 ^ 54)"
  by (simp only: ema_update_def fadd_def fmul_def fl_7_10 fl_3_10 if_True mult_1_right
        fl_3_10_fixed)

lemma ema_update_False:
  "ema_update s False = fl (fl (6305039478318694 / 2 ^ 53 * s))"
  by (simp only: ema_update_def fadd_def fmul_def fl_7_10 fl_3_10 if_False mult_zero_right
        fl_0 add_0_right)

lemma fl_lower:
  assumes "0 \<le> x" and "x < 1"
  shows "x - 1 / 2 ^ 54 \<le> fl x"
proof -
  have "\<bar>fl x - x\<bar> \<le> quantum x / 2" using assms(1) by (rule fl_error)
  then have "x - fl x \<le> quantum x / 2" by linarith
  moreover have "quantum x \<le> 1 / 2 ^ 53" using assms(2) by (rule quantum_le)
  then have "quantum x / 2 \<le> 1 / 2 ^ 54" by simp
  ultimately show ?thesis by linarith
qed

lemma fl_upper:
  assumes "0 \<le> x" and "x < 1"
  shows "fl x \<le> x + x / 2 ^ 53 + 1 / 2 ^ 1075"
proof -
  have "\<bar>fl x - x\<bar> \<le> quantum x / 2" using assms(1) by (rule fl_error)
  then have "fl x - x \<le> quantum x / 2" by linarith
  moreover have "quantum x \<le> x / 2 ^ 52 + 1 / 2 ^ 1074" using assms by (rule quantum_relative)
  then have "quantum x / 2 \<le> x / 2 ^ 53 + 1 / 2 ^ 1075" by simp
  ultimately show ?thesis by linarith
qed

text \<open>The product \<open>0.7 * s\<close>, rounded, for a score up to the largest float below 1.\<close>

lemma product_bound:
  assumes "0 \<le> s" and "s \<le> 1 - 1 / 2 ^ 53"
  shows "fl (6305039478318694 / 2 ^ 53 * s) \<le> 6305039478318693 / 2 ^ 53"
proof -
  let ?p = "6305039478318694 / 2 ^ 53 * s"
  have p0: "0 \<le> ?p" using assms(1) by simp
  have p1: "?p < 1" using assms(2) by simp
  show ?thesis
  proof (cases "?p < 1 / 2")
    case True
    have "?p \<le> of_int (2 ^ 52) / 2 ^ 53" using True by simp
    from fl_le_multiple[OF p0 p1 this] show ?thesis by simp
  next
    case False
    then have q: "quantum ?p = 1 / 2 ^ 53" using p1 by (simp add: quantum_half)
    have "?p / quantum ?p < of_int 6305039478318693 + 1 / 2"
      unfolding q using assms(2) by simp
    then have "round_half_even (?p / quantum ?p) \<le> 6305039478318693"
      by (rule round_half_even_below_half)
    then have "(of_int (round_half_even (?p / quantum ?p)) :: real) \<le> 6305039478318693"
      by linarith
    then show ?thesis unfolding fl_nonneg_eq[OF p0] q by simp
  qed
qed

lemma success_keeps_below_1:
  assumes "0 \<le> s" and "s \<le> 1 - 1 / 2 ^ 53"
  shows "0 \<le> ema_update s True \<and> ema_update s True \<le> 1 - 1 / 2 ^ 53"
proof -
  let ?y = "fl (6305039478318694 / 2 ^ 53 * s)"
  let ?z = "?y + 5404319552844595 / 2 ^ 54"
  have y0: "0 \<le> ?y" using assms(1) by (intro fl_nonneg) simp
  have y1: "?y \<le> 6305039478318693 / 2 ^ 53" using assms by (rule product_bound)
  have z0: "0 \<le> ?z" using y0 by simp
  have z1: "?z < 1" using y1 by simp
  have "?z \<le> of_int (2 ^ 53 - 1) / 2 ^ 53" using y1 by simp
  from fl_le_multiple[OF z0 z1 this] have "fl ?z \<le> 1 - 1 / 2 ^ 53" by simp
  moreover have "0 \<le> fl ?z" using z0 by (rule fl_nonneg)
  ultimately show ?thesis by (simp only: ema_update_True)
qed

lemma success_increases:
  assumes "0 \<le> s" and "s \<le> 1 - 1 / 2 ^ 50"
  shows "s < ema_update s True"
proof -
  let ?p = "6305039478318694 / 2 ^ 53 * s"
  let ?y = "fl ?p"
  let ?z = "?y + 5404319552844595 / 2 ^ 54"
  have s1: "s \<le> 1 - 1 / 2 ^ 53" using assms(2) by simp
  have p0: "0 \<le> ?p" using assms(1) by simp
  have p1: "?p < 1" using s1 by simp
  have y0: "0 \<le> ?y" using p0 by (rule fl_nonneg)
  have y1: "?y \<le> 6305039478318693 / 2 ^ 53" using assms(1) s1 by (rule product_bound)
  have z0: "0 \<le> ?z" using y0 by simp
  have z1: "?z < 1" using y1 by simp
  have ey: "?p - 1 / 2 ^ 54 \<le> ?y" using p0 p1 by (rule fl_lower)
  have ez: "?z - 1 / 2 ^ 54 \<le> fl ?z" using z0 z1 by (rule fl_lower)
  have "s < ?p + 5404319552844595 / 2 ^ 54 - 1 / 2 ^ 53" using assms(2) by simp
  with ey ez have "s < fl ?z" by simp
  then show ?thesis by (simp only: ema_update_True)
qed

lemma failure_keeps_in_range:
  assumes "0 \<le> s" and "s \<le> 1"
  shows "0 \<le> ema_update s False \<and> ema_update s False \<le> 1"
proof -
  let ?p = "6305039478318694 / 2 ^ 53 * s"
  let ?y = "fl ?p"
  have p0: "0 \<le> ?p" using assms(1) by simp
  have p1: "?p < 1" using assms(2) by simp
  have y0: "0 \<le> ?y" using p0 by (rule fl_nonneg)
  have "?p \<le> of_int 6305039478318694 / 2 ^ 53" using assms(2) by simp
  from fl_le_multiple[OF p0 p1 this] have y1: "?y \<le> of_int 6305039478318694 / 2 ^ 53" .
  then have y2: "?y < 1" by simp
  from fl_le_multiple[OF y0 y2 y1] have "fl ?y \<le> 1" by simp
  moreover have "0 \<le> fl ?y" using y0 by (rule fl_nonneg)
  ultimately show ?thesis by (simp only: ema_update_False)
qed

lemma failure_decreases:
  assumes "1 / 2 ^ 1072 \<le> s" and "s \<le> 1"
  shows "ema_update s False < s"
proof -
  let ?p = "6305039478318694 / 2 ^ 53 * s"
  let ?y = "fl ?p"
  have s0: "0 \<le> s" using assms(1) by (rule order_trans[rotated]) simp
  have p0: "0 \<le> ?p" using s0 by simp
  have p1: "?p < 1" using assms(2) by simp
  have y0: "0 \<le> ?y" using p0 by (rule fl_nonneg)
  have "?p \<le> of_int 6305039478318694 / 2 ^ 53" using assms(2) by simp
  from fl_le_multiple[OF p0 p1 this] have "?y \<le> of_int 6305039478318694 / 2 ^ 53" .
  then have y2: "?y < 1" by simp
  have ey: "?y \<le> ?p + ?p / 2 ^ 53 + 1 / 2 ^ 1075" using p0 p1 by (rule fl_upper)
  have ez: "fl ?y \<le> ?y + ?y / 2 ^ 53 + 1 / 2 ^ 1075" using y0 y2 by (rule fl_upper)
  have "?p + ?p / 2 ^ 53 \<le> 7001 / 10000 * s" using s0 by simp
  with ey have y3: "?y \<le> 7001 / 10000 * s + 1 / 2 ^ 1075" by simp
  then have "?y / 2 ^ 53 \<le> (7001 / 10000 * s + 1 / 2 ^ 1075) / 2 ^ 53"
    by (simp only: divide_right_mono zero_le_power zero_le_numeral)
  also have "\<dots> \<le> 1 / 10000 * s + 1 / 2 ^ 1078" using s0 by simp
  finally have "?y / 2 ^ 53 \<le> 1 / 10000 * s + 1 / 2 ^ 1078" .
  with ez y3 have "fl ?y \<le> 7002 / 10000 * s + 17 / 2 ^ 1078" by simp
  moreover have "7002 / 10000 * s + 17 / 2 ^ 1078 < s" using assms(1) by simp
  ultimately have "fl ?y < s" by linarith
  then show ?thesis by (simp only: ema_update_False)
qed

text \<open>A binary64 number below 1 is at most \<open>1 - 2 ^ -53\<close>.\<close>

lemma float_below_1:
  assumes "fl x = x" and "0 \<le> x" and "x < 1"
  shows "x \<le> 1 - 1 / 2 ^ 53"
proof (cases "x < 1 / 2")
  case True
  then show ?thesis by simp
next
  case False
  then have q: "quantum x = 1 / 2 ^ 53" using assms(3) by (simp add: quantum_half)
  define m where "m = round_half_even (x / quantum x)"
  have "fl x = of_int m * quantum x"
    unfolding m_def using assms(2) by (rule fl_nonneg_eq)
  then have x: "x = of_int m / 2 ^ 53"
    unfolding q assms(1) by simp
  have "(of_int m :: real) < of_int (2 ^ 53)"
    using assms(3) unfolding x by simp
  then have "m < 2 ^ 53" by (simp only: of_int_less_iff)
  then have "m \<le> 2 ^ 53 - 1" by simp
  then have "(of_int m :: real) \<le> of_int (2 ^ 53 - 1)" by (simp only: of_int_le_iff)
  then show ?thesis unfolding x by simp
qed

subsection \<open>Scores next to the ends\<close>

lemma doublings_full: "0 \<le> a \<Longrightarrow> a * 2 ^ n < 1 \<Longrightarrow> doublings n a = n"
proof (induction n arbitrary: a)
  case 0
  then show ?case by simp
next
  case (Suc n)
  have "(1::real) \<le> 2 ^ Suc n" by (rule one_le_power) simp
  then have "a * 1 \<le> a * 2 ^ Suc n" using Suc.prems(1) by (rule mult_left_mono)
  then have "a < 1" using Suc.prems(2) by simp
  moreover have "doublings n (2 * a) = n"
    using Suc.prems by (intro Suc.IH) (simp_all add: mult.assoc mult.commute)
  ultimately show ?case by simp
qed

lemma quantum_subnormal:
  assumes "0 \<le> a" and "a < 1 / 2 ^ 1022"
  shows "quantum a = 1 / 2 ^ 1074"
proof -
  have "a * 2 ^ 1022 < 1" using assms(2) by (simp add: pos_less_divide_eq)
  then have "doublings 1022 a = 1022" using assms(1) by (intro doublings_full)
  moreover have "a < 1" using assms(2) by simp
  ultimately show ?thesis by (simp add: quantum_def)
qed

lemma rescale:
  fixes x :: real
  assumes "N = P * Q" and "0 < P" and "0 < Q"
  shows "x * (1 / P) = x * Q / N"
  using assms by (simp add: field_simps)

lemma fl_on_unit_grid:
  assumes "0 \<le> z" and "z < 1"
  shows "\<exists>n::int. fl z = of_int n / 2 ^ 1074"
proof -
  from quantum_below_1[OF assms(2)] obtain k where
    k: "k \<le> 1022" and q: "quantum z = 1 / 2 ^ (k + 52)" by blast
  define m where "m = round_half_even (z / quantum z)"
  have "k + 52 + (1022 - k) = 1074" using k by simp
  then have "(2::real) ^ 1074 = 2 ^ (k + 52) * 2 ^ (1022 - k)"
    by (simp only: power_add[symmetric])
  then have "of_int m * (1 / 2 ^ (k + 52)) = of_int m * (2::real) ^ (1022 - k) / 2 ^ 1074"
    by (rule rescale) simp_all
  also have "\<dots> = of_int (m * 2 ^ (1022 - k)) / 2 ^ 1074"
    by (simp only: of_int_mult of_int_power of_int_numeral)
  finally have "fl z = of_int (m * 2 ^ (1022 - k)) / 2 ^ 1074"
    unfolding fl_nonneg_eq[OF assms(1)] q m_def .
  then show ?thesis by blast
qed

lemma fl_on_53_grid:
  assumes "0 \<le> z" and "z < 1" and "1 / 2 < fl z"
  shows "\<exists>m::int. fl z = of_int m / 2 ^ 53"
proof -
  have "\<not> z < 1 / 2"
  proof
    assume "z < 1 / 2"
    then have "z \<le> of_int (2 ^ 52) / 2 ^ 53" by simp
    from fl_le_multiple[OF assms(1,2) this] have "fl z \<le> 1 / 2" by simp
    with assms(3) show False by simp
  qed
  then have "quantum z = 1 / 2 ^ 53" using assms(2) by (simp add: quantum_half)
  then have "fl z = of_int (round_half_even (z / quantum z)) / 2 ^ 53"
    unfolding fl_nonneg_eq[OF assms(1)] by simp
  then show ?thesis by blast
qed

lemma top_values:
  "ema_update (9007199254740991 / 2 ^ 53) True = 9007199254740990 / 2 ^ 53"
  "ema_update (9007199254740990 / 2 ^ 53) True = 9007199254740990 / 2 ^ 53"
  "ema_update (9007199254740989 / 2 ^ 53) True = 9007199254740990 / 2 ^ 53"
  "ema_update (9007199254740988 / 2 ^ 53) True = 9007199254740988 / 2 ^ 53"
  "ema_update (9007199254740987 / 2 ^ 53) True = 9007199254740988 / 2 ^ 53"
  "ema_update (9007199254740986 / 2 ^ 53) True = 9007199254740988 / 2 ^ 53"
  "ema_update (9007199254740985 / 2 ^ 53) True = 9007199254740986 / 2 ^ 53"
  by (simp_all add: ema_update_True fl_eval)

lemma top_cases:
  fixes v :: real
  assumes "v = of_int m / 2 ^ 53" and "1 - 1 / 2 ^ 50 < v" and "v < 1"
  shows "v = 9007199254740991 / 2 ^ 53 \<or> v = 9007199254740990 / 2 ^ 53 \<or>
         v = 9007199254740989 / 2 ^ 53 \<or> v = 9007199254740988 / 2 ^ 53 \<or>
         v = 9007199254740987 / 2 ^ 53 \<or> v = 9007199254740986 / 2 ^ 53 \<or>
         v = 9007199254740985 / 2 ^ 53"
proof -
  define d where "d = 9007199254740992 - m"
  have m: "m = 9007199254740992 - d" by (simp add: d_def)
  have "(of_int m :: real) < of_int 9007199254740992"
    using assms(3) unfolding assms(1) by simp
  then have "m < 9007199254740992" by (simp only: of_int_less_iff)
  then have d0: "0 < d" by (simp add: d_def)
  have "(of_int 9007199254740984 :: real) < of_int m"
    using assms(2) unfolding assms(1) by simp
  then have "9007199254740984 < m" by (simp only: of_int_less_iff)
  then have d8: "d < 8" by (simp add: d_def)
  from d0 d8 have "d = 1 \<or> d = 2 \<or> d = 3 \<or> d = 4 \<or> d = 5 \<or> d = 6 \<or> d = 7" by arith
  then show ?thesis unfolding assms(1) m by auto
qed

lemma fl_subnormal:
  assumes "0 \<le> x" and "x < 1 / 2 ^ 1022"
  shows "fl x = of_int (round_half_even (x * 2 ^ 1074)) / 2 ^ 1074"
  unfolding fl_nonneg_eq[OF assms(1)] quantum_subnormal[OF assms] by simp

lemma bottom_products:
  "fl (6305039478318694 / 2 ^ 53 * (1 / 2 ^ 1074)) = 1 / 2 ^ 1074"
  "fl (6305039478318694 / 2 ^ 53 * (2 / 2 ^ 1074)) = 1 / 2 ^ 1074"
  "fl (6305039478318694 / 2 ^ 53 * (3 / 2 ^ 1074)) = 2 / 2 ^ 1074"
  "fl (1 / 2 ^ 1074) = 1 / 2 ^ 1074"
  "fl (2 / 2 ^ 1074) = 2 / 2 ^ 1074"
  by (simp_all add: fl_subnormal round_half_even_def Let_def)

lemma bottom_values:
  "ema_update (1 / 2 ^ 1074) False = 1 / 2 ^ 1074"
  "ema_update (2 / 2 ^ 1074) False = 1 / 2 ^ 1074"
  "ema_update (3 / 2 ^ 1074) False = 2 / 2 ^ 1074"
  "ema_update 0 False = 0"
  by (simp_all only: ema_update_False bottom_products mult_zero_right fl_0)

lemma bottom_cases:
  fixes v :: real
  assumes "v = of_int n / 2 ^ 1074" and "0 < v" and "v < 4 / 2 ^ 1074"
  shows "v = 1 / 2 ^ 1074 \<or> v = 2 / 2 ^ 1074 \<or> v = 3 / 2 ^ 1074"
proof -
  have "(of_int 0 :: real) < of_int n" using assms(2) unfolding assms(1) by simp
  then have n0: "0 < n" by (simp only: of_int_less_iff)
  have "(of_int n :: real) < of_int 4" using assms(3) unfolding assms(1) by simp
  then have n4: "n < 4" by (simp only: of_int_less_iff)
  from n0 n4 have "n = 1 \<or> n = 2 \<or> n = 3" by arith
  then show ?thesis unfolding assms(1) by auto
qed

lemma ema_True_rounded:
  assumes "0 \<le> s" and "s \<le> 1 - 1 / 2 ^ 53"
  shows "\<exists>z. 0 \<le> z \<and> z < 1 \<and> ema_update s True = fl z"
proof -
  let ?y = "fl (6305039478318694 / 2 ^ 53 * s)"
  let ?z = "?y + 5404319552844595 / 2 ^ 54"
  have y0: "0 \<le> ?y" using assms(1) by (intro fl_nonneg) simp
  have y1: "?y \<le> 6305039478318693 / 2 ^ 53" using assms by (rule product_bound)
  have "0 \<le> ?z" using y0 by simp
  moreover have "?z < 1" using y1 by simp
  moreover have "ema_update s True = fl ?z" by (rule ema_update_True)
  ultimately show ?thesis by blast
qed

lemma ema_False_rounded:
  assumes "0 \<le> s" and "s \<le> 1"
  shows "\<exists>z. 0 \<le> z \<and> z < 1 \<and> ema_update s False = fl z"
proof -
  let ?p = "6305039478318694 / 2 ^ 53 * s"
  have p0: "0 \<le> ?p" using assms(1) by simp
  have p1: "?p < 1" using assms(2) by simp
  have "?p \<le> of_int 6305039478318694 / 2 ^ 53" using assms(2) by simp
  from fl_le_multiple[OF p0 p1 this] have "fl ?p < 1" by simp
  moreover have "0 \<le> fl ?p" using p0 by (rule fl_nonneg)
  moreover have "ema_update s False = fl (fl ?p)" by (rule ema_update_False)
  ultimately show ?thesis by blast
qed

text \<open>One success observation, at every binary64 score below 1.\<close>

lemma success_exact:
  assumes "0 \<le> z" and "z < 1" and "v = fl z" and "v \<le> 1 - 1 / 2 ^ 53"
  shows "(v \<noteq> 1 - 1 / 2 ^ 51 \<and> v \<noteq> 1 - 1 / 2 ^ 52 \<and> v \<noteq> 1 - 1 / 2 ^ 53 \<longrightarrow>
            v < ema_update v True) \<and>
         (v = 1 - 1 / 2 ^ 51 \<or> v = 1 - 1 / 2 ^ 52 \<longrightarrow> ema_update v True = v) \<and>
         (v = 1 - 1 / 2 ^ 53 \<longrightarrow> ema_update v True = 1 - 1 / 2 ^ 52)"
proof (cases "v \<le> 1 - 1 / 2 ^ 50")
  case True
  have "0 \<le> v" unfolding assms(3) using assms(1) by (rule fl_nonneg)
  then have "v < ema_update v True" using True by (rule success_increases)
  moreover have "v \<noteq> 1 - 1 / 2 ^ 51" "v \<noteq> 1 - 1 / 2 ^ 52" "v \<noteq> 1 - 1 / 2 ^ 53"
    using True by simp_all
  ultimately show ?thesis by simp
next
  case False
  then have far: "1 - 1 / 2 ^ 50 < v" by simp
  then have "1 / 2 < fl z" unfolding assms(3) by simp
  from fl_on_53_grid[OF assms(1,2) this] obtain m :: int where "v = of_int m / 2 ^ 53"
    unfolding assms(3) by blast
  moreover have "v < 1" using assms(4) by simp
  ultimately have "v = 9007199254740991 / 2 ^ 53 \<or> v = 9007199254740990 / 2 ^ 53 \<or>
         v = 9007199254740989 / 2 ^ 53 \<or> v = 9007199254740988 / 2 ^ 53 \<or>
         v = 9007199254740987 / 2 ^ 53 \<or> v = 9007199254740986 / 2 ^ 53 \<or>
         v = 9007199254740985 / 2 ^ 53"
    using far by (intro top_cases)
  then consider
      (a1) "v = 9007199254740991 / 2 ^ 53" | (a2) "v = 9007199254740990 / 2 ^ 53"
    | (a3) "v = 9007199254740989 / 2 ^ 53" | (a4) "v = 9007199254740988 / 2 ^ 53"
    | (a5) "v = 9007199254740987 / 2 ^ 53" | (a6) "v = 9007199254740986 / 2 ^ 53"
    | (a7) "v = 9007199254740985 / 2 ^ 53" by blast
  then show ?thesis
  proof cases
    case a1
    have e: "ema_update v True = 9007199254740990 / 2 ^ 53" unfolding a1 by (rule top_values(1))
    show ?thesis unfolding e unfolding a1 by simp
  next
    case a2
    have e: "ema_update v True = 9007199254740990 / 2 ^ 53" unfolding a2 by (rule top_values(2))
    show ?thesis unfolding e unfolding a2 by simp
  next
    case a3
    have e: "ema_update v True = 9007199254740990 / 2 ^ 53" unfolding a3 by (rule top_values(3))
    show ?thesis unfolding e unfolding a3 by simp
  next
    case a4
    have e: "ema_update v True = 9007199254740988 / 2 ^ 53" unfolding a4 by (rule top_values(4))
    show ?thesis unfolding e unfolding a4 by simp
  next
    case a5
    have e: "ema_update v True = 9007199254740988 / 2 ^ 53" unfolding a5 by (rule top_values(5))
    show ?thesis unfolding e unfolding a5 by simp
  next
    case a6
    have e: "ema_update v True = 9007199254740988 / 2 ^ 53" unfolding a6 by (rule top_values(6))
    show ?thesis unfolding e unfolding a6 by simp
  next
    case a7
    have e: "ema_update v True = 9007199254740986 / 2 ^ 53" unfolding a7 by (rule top_values(7))
    show ?thesis unfolding e unfolding a7 by simp
  qed
qed

text \<open>One failure observation, at every binary64 score in \<open>[0, 1]\<close>.\<close>

lemma failure_exact:
  assumes "0 \<le> v" and "v \<le> 1" and "v = 1 \<or> (\<exists>z. 0 \<le> z \<and> z < 1 \<and> v = fl z)"
  shows "(0 < v \<and> v \<noteq> 1 / 2 ^ 1074 \<longrightarrow> ema_update v False < v) \<and>
         (v = 0 \<or> v = 1 / 2 ^ 1074 \<longrightarrow> ema_update v False = v)"
proof (cases "1 / 2 ^ 1072 \<le> v")
  case True
  then have "ema_update v False < v" using assms(2) by (rule failure_decreases)
  moreover have "v \<noteq> 0" "v \<noteq> 1 / 2 ^ 1074" using True by simp_all
  ultimately show ?thesis by simp
next
  case False
  then have small: "v < 4 / 2 ^ 1074" by simp
  then have "v \<noteq> 1" by simp
  with assms(3) obtain z where "0 \<le> z" "z < 1" "v = fl z" by blast
  with fl_on_unit_grid[of z] obtain n :: int where n: "v = of_int n / 2 ^ 1074" by auto
  show ?thesis
  proof (cases "v = 0")
    case True
    show ?thesis unfolding True using bottom_values(4) by simp
  next
    case False
    with assms(1) have "0 < v" by simp
    from bottom_cases[OF n this small] consider
        (b1) "v = 1 / 2 ^ 1074" | (b2) "v = 2 / 2 ^ 1074" | (b3) "v = 3 / 2 ^ 1074" by blast
    then show ?thesis
    proof cases
      case b1
      have e: "ema_update v False = 1 / 2 ^ 1074" unfolding b1 by (rule bottom_values(1))
      show ?thesis unfolding e unfolding b1 by simp
    next
      case b2
      have e: "ema_update v False = 1 / 2 ^ 1074" unfolding b2 by (rule bottom_values(2))
      show ?thesis unfolding e unfolding b2 by simp
    next
      case b3
      have e: "ema_update v False = 2 / 2 ^ 1074" unfolding b3 by (rule bottom_values(3))
      show ?thesis unfolding e unfolding b3 by simp
    qed
  qed
qed

subsection \<open>Repeated observations\<close>

lemma score_log_decision:
  "score (log_decision md5 now action (Some ok) s) (extract_pattern_key md5 action '''')
     = ema_update (score s (extract_pattern_key md5 action '''')) ok"
  by (simp add: log_decision_def save_patterns_def score_def ema_update_def Let_def)

lemma score_after_0: "score_after md5 now action ok 0 s = score s (extract_pattern_key md5 action '''')"
  by (simp add: score_after_def)

lemma score_after_Suc:
  "score_after md5 now action ok (Suc n) s = ema_update (score_after md5 now action ok n s) ok"
  by (simp add: score_after_def score_log_decision)

lemma success_invariant_exact:
  assumes "fl (score_after md5 now action True 0 s) = score_after md5 now action True 0 s"
    and "0 \<le> score_after md5 now action True 0 s"
    and "score_after md5 now action True 0 s < 1"
  shows "0 \<le> score_after md5 now action True n s \<and>
         score_after md5 now action True n s \<le> 1 - 1 / 2 ^ 53 \<and>
         (\<exists>z. 0 \<le> z \<and> z < 1 \<and> score_after md5 now action True n s = fl z)"
proof (induction n)
  case 0
  have "score_after md5 now action True 0 s \<le> 1 - 1 / 2 ^ 53"
    using assms by (rule float_below_1)
  moreover have "\<exists>z. 0 \<le> z \<and> z < 1 \<and> score_after md5 now action True 0 s = fl z"
    using assms by metis
  ultimately show ?case using assms(2) by blast
next
  case (Suc n)
  then have a: "0 \<le> score_after md5 now action True n s"
    and b: "score_after md5 now action True n s \<le> 1 - 1 / 2 ^ 53" by simp_all
  from success_keeps_below_1[OF a b] ema_True_rounded[OF a b]
  show ?case unfolding score_after_Suc by blast
qed

lemma failure_invariant_exact:
  assumes "fl (score_after md5 now action False 0 s) = score_after md5 now action False 0 s"
    and "0 \<le> score_after md5 now action False 0 s"
    and "score_after md5 now action False 0 s \<le> 1"
  shows "0 \<le> score_after md5 now action False n s \<and>
         score_after md5 now action False n s \<le> 1 \<and>
         (score_after md5 now action False n s = 1 \<or>
          (\<exists>z. 0 \<le> z \<and> z < 1 \<and> score_after md5 now action False n s = fl z))"
proof (induction n)
  case 0
  have "score_after md5 now action False 0 s = 1 \<or>
          (\<exists>z. 0 \<le> z \<and> z < 1 \<and> score_after md5 now action False 0 s = fl z)"
  proof (cases "score_after md5 now action False 0 s = 1")
    case True
    then show ?thesis by blast
  next
    case False
    with assms(3) have "score_after md5 now action False 0 s < 1" by simp
    with assms(1,2) show ?thesis by metis
  qed
  with assms(2,3) show ?case by blast
next
  case (Suc n)
  then have a: "0 \<le> score_after md5 now action False n s"
    and b: "score_after md5 now action False n s \<le> 1" by simp_all
  from failure_keeps_in_range[OF a b] ema_False_rounded[OF a b]
  show ?case unfolding score_after_Suc by blast
qed

text \<open>
  C6, as the code has it. The score of an unseen key is 0.5, and each observation
  replaces the score \<open>v\<close> by \<open>0.7 * v + 0.3 * 1.0\<close> on success and by
  \<open>0.7 * v + 0.3 * 0.0\<close> on failure, computed in binary64 arithmetic. From a
  binary64 score in \<open>[0, 1)\<close>, every score reached by repeated success observations
  is again in \<open>[0, 1)\<close>, so it never reaches 1.0, and the next observation strictly
  increases it, except at \<open>1 - 2 ^ -51\<close> and \<open>1 - 2 ^ -52\<close>, which it leaves as they
  are, and at \<open>1 - 2 ^ -53\<close>, which it lowers to \<open>1 - 2 ^ -52\<close>. From a binary64 score
  in \<open>[0, 1]\<close>, every score reached by repeated failure observations is again in
  \<open>[0, 1]\<close>, so it never goes below 0.0, and the next observation strictly decreases
  it, except at 0.0 and at \<open>2 ^ -1074\<close>, which it leaves as they are.
\<close>

theorem pattern_score_observations:
  "(pattern_memory s (extract_pattern_key md5 action '''') = None \<longrightarrow>
      score_after md5 now action ok 0 s = 1 / 2) \<and>
   score_after md5 now action ok (Suc n) s =
      fadd (fmul (fl (7 / 10)) (score_after md5 now action ok n s))
           (fmul (fl (3 / 10)) (if ok then 1 else 0)) \<and>
   (fl (score_after md5 now action True 0 s) = score_after md5 now action True 0 s \<and>
    0 \<le> score_after md5 now action True 0 s \<and> score_after md5 now action True 0 s < 1 \<longrightarrow>
      0 \<le> score_after md5 now action True n s \<and>
      score_after md5 now action True n s < 1 \<and>
      (score_after md5 now action True n s \<noteq> 1 - 1 / 2 ^ 51 \<and>
       score_after md5 now action True n s \<noteq> 1 - 1 / 2 ^ 52 \<and>
       score_after md5 now action True n s \<noteq> 1 - 1 / 2 ^ 53 \<longrightarrow>
         score_after md5 now action True n s < score_after md5 now action True (Suc n) s) \<and>
      (score_after md5 now action True n s = 1 - 1 / 2 ^ 51 \<or>
       score_after md5 now action True n s = 1 - 1 / 2 ^ 52 \<longrightarrow>
         score_after md5 now action True (Suc n) s = score_after md5 now action True n s) \<and>
      (score_after md5 now action True n s = 1 - 1 / 2 ^ 53 \<longrightarrow>
         score_after md5 now action True (Suc n) s = 1 - 1 / 2 ^ 52)) \<and>
   (fl (score_after md5 now action False 0 s) = score_after md5 now action False 0 s \<and>
    0 \<le> score_after md5 now action False 0 s \<and> score_after md5 now action False 0 s \<le> 1 \<longrightarrow>
      0 \<le> score_after md5 now action False n s \<and>
      score_after md5 now action False n s \<le> 1 \<and>
      (0 < score_after md5 now action False n s \<and>
       score_after md5 now action False n s \<noteq> 1 / 2 ^ 1074 \<longrightarrow>
         score_after md5 now action False (Suc n) s < score_after md5 now action False n s) \<and>
      (score_after md5 now action False n s = 0 \<or>
       score_after md5 now action False n s = 1 / 2 ^ 1074 \<longrightarrow>
         score_after md5 now action False (Suc n) s = score_after md5 now action False n s))"
proof (intro conjI)
  show "pattern_memory s (extract_pattern_key md5 action '''') = None \<longrightarrow>
      score_after md5 now action ok 0 s = 1 / 2"
    by (simp add: score_after_0 score_def)
  show "score_after md5 now action ok (Suc n) s =
      fadd (fmul (fl (7 / 10)) (score_after md5 now action ok n s))
           (fmul (fl (3 / 10)) (if ok then 1 else 0))"
    by (simp only: score_after_Suc ema_update_def)
  show "fl (score_after md5 now action True 0 s) = score_after md5 now action True 0 s \<and>
    0 \<le> score_after md5 now action True 0 s \<and> score_after md5 now action True 0 s < 1 \<longrightarrow>
      0 \<le> score_after md5 now action True n s \<and>
      score_after md5 now action True n s < 1 \<and>
      (score_after md5 now action True n s \<noteq> 1 - 1 / 2 ^ 51 \<and>
       score_after md5 now action True n s \<noteq> 1 - 1 / 2 ^ 52 \<and>
       score_after md5 now action True n s \<noteq> 1 - 1 / 2 ^ 53 \<longrightarrow>
         score_after md5 now action True n s < score_after md5 now action True (Suc n) s) \<and>
      (score_after md5 now action True n s = 1 - 1 / 2 ^ 51 \<or>
       score_after md5 now action True n s = 1 - 1 / 2 ^ 52 \<longrightarrow>
         score_after md5 now action True (Suc n) s = score_after md5 now action True n s) \<and>
      (score_after md5 now action True n s = 1 - 1 / 2 ^ 53 \<longrightarrow>
         score_after md5 now action True (Suc n) s = 1 - 1 / 2 ^ 52)"
  proof
    assume a: "fl (score_after md5 now action True 0 s) = score_after md5 now action True 0 s \<and>
      0 \<le> score_after md5 now action True 0 s \<and> score_after md5 now action True 0 s < 1"
    define v where "v = score_after md5 now action True n s"
    from a have "0 \<le> v \<and> v \<le> 1 - 1 / 2 ^ 53 \<and> (\<exists>z. 0 \<le> z \<and> z < 1 \<and> v = fl z)"
      unfolding v_def by (intro success_invariant_exact) simp_all
    then obtain z where v0: "0 \<le> v" and v1: "v \<le> 1 - 1 / 2 ^ 53"
      and z: "0 \<le> z" "z < 1" "v = fl z" by blast
    have "v < 1" using v1 by simp
    with v0 success_exact[OF z v1]
    show "0 \<le> score_after md5 now action True n s \<and>
      score_after md5 now action True n s < 1 \<and>
      (score_after md5 now action True n s \<noteq> 1 - 1 / 2 ^ 51 \<and>
       score_after md5 now action True n s \<noteq> 1 - 1 / 2 ^ 52 \<and>
       score_after md5 now action True n s \<noteq> 1 - 1 / 2 ^ 53 \<longrightarrow>
         score_after md5 now action True n s < score_after md5 now action True (Suc n) s) \<and>
      (score_after md5 now action True n s = 1 - 1 / 2 ^ 51 \<or>
       score_after md5 now action True n s = 1 - 1 / 2 ^ 52 \<longrightarrow>
         score_after md5 now action True (Suc n) s = score_after md5 now action True n s) \<and>
      (score_after md5 now action True n s = 1 - 1 / 2 ^ 53 \<longrightarrow>
         score_after md5 now action True (Suc n) s = 1 - 1 / 2 ^ 52)"
      unfolding score_after_Suc v_def[symmetric] by blast
  qed
  show "fl (score_after md5 now action False 0 s) = score_after md5 now action False 0 s \<and>
    0 \<le> score_after md5 now action False 0 s \<and> score_after md5 now action False 0 s \<le> 1 \<longrightarrow>
      0 \<le> score_after md5 now action False n s \<and>
      score_after md5 now action False n s \<le> 1 \<and>
      (0 < score_after md5 now action False n s \<and>
       score_after md5 now action False n s \<noteq> 1 / 2 ^ 1074 \<longrightarrow>
         score_after md5 now action False (Suc n) s < score_after md5 now action False n s) \<and>
      (score_after md5 now action False n s = 0 \<or>
       score_after md5 now action False n s = 1 / 2 ^ 1074 \<longrightarrow>
         score_after md5 now action False (Suc n) s = score_after md5 now action False n s)"
  proof
    assume a: "fl (score_after md5 now action False 0 s) = score_after md5 now action False 0 s \<and>
      0 \<le> score_after md5 now action False 0 s \<and> score_after md5 now action False 0 s \<le> 1"
    define w where "w = score_after md5 now action False n s"
    from a have i: "0 \<le> w \<and> w \<le> 1 \<and> (w = 1 \<or> (\<exists>z. 0 \<le> z \<and> z < 1 \<and> w = fl z))"
      unfolding w_def by (intro failure_invariant_exact) simp_all
    then have w0: "0 \<le> w" and w1: "w \<le> 1"
      and g: "w = 1 \<or> (\<exists>z. 0 \<le> z \<and> z < 1 \<and> w = fl z)" by blast+
    from w0 w1 failure_exact[OF w0 w1 g]
    show "0 \<le> score_after md5 now action False n s \<and>
      score_after md5 now action False n s \<le> 1 \<and>
      (0 < score_after md5 now action False n s \<and>
       score_after md5 now action False n s \<noteq> 1 / 2 ^ 1074 \<longrightarrow>
         score_after md5 now action False (Suc n) s < score_after md5 now action False n s) \<and>
      (score_after md5 now action False n s = 0 \<or>
       score_after md5 now action False n s = 1 / 2 ^ 1074 \<longrightarrow>
         score_after md5 now action False (Suc n) s = score_after md5 now action False n s)"
      unfolding score_after_Suc w_def[symmetric] by blast
  qed
qed

lemma example_key: "extract_pattern_key example_md5 ''deploy'' '''' = ''6112ff83''"
  by (simp add: extract_pattern_key_def example_md5_def)

text \<open>
  The claim as stated fails: \<open>0.9999999999999996\<close> is below 1.0, and a success
  observation leaves it as it is.
\<close>

theorem pattern_score_observations_counterexample:
  "score_after example_md5 ''2025-01-01T00:00:00'' ''deploy'' True 0 (init (Some example_patterns))
     = 2251799813685247 / 2251799813685248 \<and>
   score_after example_md5 ''2025-01-01T00:00:00'' ''deploy'' True (Suc 0)
      (init (Some example_patterns)) = 2251799813685247 / 2251799813685248 \<and>
   2251799813685247 / 2251799813685248 < (1 :: real)"
proof -
  have v0: "score_after example_md5 ''2025-01-01T00:00:00'' ''deploy'' True 0
              (init (Some example_patterns)) = 2251799813685247 / 2251799813685248"
    by (simp add: score_after_0 example_key score_def init_def load_patterns_def
          example_patterns_def)
  have "ema_update (2251799813685247 / 2251799813685248) True
          = 2251799813685247 / 2251799813685248"
    by (simp add: ema_update_True fl_eval)
  moreover have "2251799813685247 / 2251799813685248 < (1 :: real)" by simp
  ultimately show ?thesis using v0 by (simp only: score_after_Suc simp_thms)
qed

lemma fl_half: "fl (1 / 2) = 1 / 2"
  by (simp add: fl_eval)

theorem pattern_score_observations_witness:
  "score_after example_md5 ''2025-01-01T00:00:00'' ''deploy'' True 0 (init None) = 1 / 2 \<and>
   score_after example_md5 ''2025-01-01T00:00:00'' ''deploy'' True (Suc 0) (init None)
     = 1463669878895411 / 2251799813685248 \<and>
   score_after example_md5 ''2025-01-01T00:00:00'' ''deploy'' False (Suc 0) (init None)
     = 3152519739159347 / 9007199254740992 \<and>
   score_after example_md5 ''2025-01-01T00:00:00'' ''deploy'' True 0 (init None)
     < score_after example_md5 ''2025-01-01T00:00:00'' ''deploy'' True (Suc 0) (init None) \<and>
   score_after example_md5 ''2025-01-01T00:00:00'' ''deploy'' False (Suc 0) (init None)
     < score_after example_md5 ''2025-01-01T00:00:00'' ''deploy'' False 0 (init None)"
proof -
  let ?v = "\<lambda>ok n. score_after example_md5 ''2025-01-01T00:00:00'' ''deploy'' ok n (init None)"
  have unseen: "pattern_memory (init None) (extract_pattern_key example_md5 ''deploy'' '''') = None"
    by (simp add: example_key init_def load_patterns_def)
  note up = pattern_score_observations[of "init None" example_md5 "''deploy''"
         "''2025-01-01T00:00:00''" True 0]
  note down = pattern_score_observations[of "init None" example_md5 "''deploy''"
         "''2025-01-01T00:00:00''" False 0]
  from up unseen
  have t0: "?v True 0 = 1 / 2"
    and t1: "?v True (Suc 0) = fadd (fmul (fl (7 / 10)) (?v True 0)) (fmul (fl (3 / 10)) 1)"
    by (simp_all only: if_True)
  from down unseen
  have f0: "?v False 0 = 1 / 2"
    and f1: "?v False (Suc 0) = fadd (fmul (fl (7 / 10)) (?v False 0)) (fmul (fl (3 / 10)) 0)"
    by (simp_all only: if_False)
  have "fl (?v True 0) = ?v True 0 \<and> 0 \<le> ?v True 0 \<and> ?v True 0 < 1"
    unfolding t0 by (simp add: fl_half)
  moreover have "?v True 0 \<noteq> 1 - 1 / 2 ^ 51 \<and> ?v True 0 \<noteq> 1 - 1 / 2 ^ 52 \<and>
                 ?v True 0 \<noteq> 1 - 1 / 2 ^ 53" unfolding t0 by simp
  ultimately have inc: "?v True 0 < ?v True (Suc 0)" using up by blast
  have "fl (?v False 0) = ?v False 0 \<and> 0 \<le> ?v False 0 \<and> ?v False 0 \<le> 1"
    unfolding f0 by (simp add: fl_half)
  moreover have "0 < ?v False 0 \<and> ?v False 0 \<noteq> 1 / 2 ^ 1074" unfolding f0 by simp
  ultimately have dec: "?v False (Suc 0) < ?v False 0" using down by blast
  have "?v True (Suc 0) = 1463669878895411 / 2251799813685248"
    unfolding t1 t0 by (simp add: fadd_def fmul_def fl_eval)
  moreover have "?v False (Suc 0) = 3152519739159347 / 9007199254740992"
    unfolding f1 f0 by (simp add: fadd_def fmul_def fl_eval)
  ultimately show ?thesis using t0 inc dec by blast
qed

subsection \<open>The decision confidence\<close>

lemma fl_15_10: "fl (15 / 10) = 3 / 2"
  by (simp add: fl_eval)

lemma calculate_decision_confidence_eq:
  "calculate_decision_confidence s action context =
     spec_confidence (sublist ''user explicitly asked'' context)
       (sublist ''create'' action \<and> sublist ''use existing'' context)
       ((sublist ''check'' context \<or> sublist ''read'' context) \<and>
         \<not> sublist ''already read'' action)
       (trinity_active s)"
  unfolding calculate_decision_confidence_def spec_confidence_def py_in_sublist Let_def
  by (cases "sublist ''check'' context \<or> sublist ''read'' context";
      cases "sublist ''already read'' action") simp_all

text \<open>
  C7. \<open>calculate_decision_confidence\<close> computes the value the specification
  describes: it starts from 0.5, adds 0.4 when the context contains
  \<open>user explicitly asked\<close>, subtracts 0.3 when the action contains \<open>create\<close> and the
  context contains \<open>use existing\<close>, and subtracts 0.2 when the context contains
  \<open>check\<close> or \<open>read\<close> and the action does not contain \<open>already read\<close>. In
  activation mode the result is that unboosted value times 1.5, capped at 1.0;
  otherwise it is the unboosted value. Activation mode is off in a new object and
  is switched on by a message that contains \<open>ich bins wieder\<close> in any letter case.
\<close>

theorem decision_confidence_spec:
  "calculate_decision_confidence s action context =
     spec_confidence (sublist ''user explicitly asked'' context)
       (sublist ''create'' action \<and> sublist ''use existing'' context)
       ((sublist ''check'' context \<or> sublist ''read'' context) \<and>
         \<not> sublist ''already read'' action)
       (trinity_active s) \<and>
   spec_confidence a b c True = min (fmul (spec_confidence a b c False) (3 / 2)) 1 \<and>
   trinity_active (snd (check_trinity_activation message s))
     = (sublist ''ich bins wieder'' (lower message) \<or> trinity_active s) \<and>
   \<not> trinity_active (init file)"
proof (intro conjI)
  show "calculate_decision_confidence s action context =
     spec_confidence (sublist ''user explicitly asked'' context)
       (sublist ''create'' action \<and> sublist ''use existing'' context)
       ((sublist ''check'' context \<or> sublist ''read'' context) \<and>
         \<not> sublist ''already read'' action)
       (trinity_active s)"
    by (rule calculate_decision_confidence_eq)
  show "spec_confidence a b c True = min (fmul (spec_confidence a b c False) (3 / 2)) 1"
    by (simp only: spec_confidence_def Let_def if_True if_False fl_15_10)
  show "trinity_active (snd (check_trinity_activation message s))
     = (sublist ''ich bins wieder'' (lower message) \<or> trinity_active s)"
    by (simp add: check_trinity_activation_def py_in_sublist)
  show "\<not> trinity_active (init file)"
    by (simp add: init_def)
qed

lemma lower_example: "lower ''Ich bins wieder'' = ''ich bins wieder''"
  by code_simp

lemma example_conditions:
  "sublist ''user explicitly asked'' ''user explicitly asked: use existing, read docs'' = True"
  "sublist ''create'' ''create new service'' = True"
  "sublist ''use existing'' ''user explicitly asked: use existing, read docs'' = True"
  "sublist ''read'' ''user explicitly asked: use existing, read docs'' = True"
  "sublist ''already read'' ''create new service'' = False"
  by (simp_all add: py_in_sublist[symmetric])

lemma example_steps:
  "fadd (1 / 2) (fl (4 / 10)) = 8106479329266893 / 9007199254740992"
  "fsub (8106479329266893 / 9007199254740992) (fl (3 / 10))
     = 1351079888211149 / 2251799813685248"
  "fsub (1351079888211149 / 2251799813685248) (fl (2 / 10))
     = 7205759403792795 / 18014398509481984"
  "min (fmul (7205759403792795 / 18014398509481984) (fl (15 / 10))) 1
     = 1351079888211149 / 2251799813685248"
  by (simp_all add: fadd_def fsub_def fmul_def fl_eval)

lemma example_confidence:
  "spec_confidence True True True True = 1351079888211149 / 2251799813685248"
  by (simp only: spec_confidence_def Let_def if_True example_steps)

theorem decision_confidence_spec_witness:
  "calculate_decision_confidence
     (snd (check_trinity_activation ''Ich bins wieder'' (init None)))
     ''create new service'' ''user explicitly asked: use existing, read docs''
   = 1351079888211149 / 2251799813685248"
proof -
  note t = decision_confidence_spec[of
          "snd (check_trinity_activation ''Ich bins wieder'' (init None))"
          "''create new service''" "''user explicitly asked: use existing, read docs''"
          True True True "''Ich bins wieder''" None]
  note u = decision_confidence_spec[of "init None" "''create new service''"
          "''user explicitly asked: use existing, read docs''"
          True True True "''Ich bins wieder''" None]
  from u have "trinity_active (snd (check_trinity_activation ''Ich bins wieder'' (init None)))
     = (sublist ''ich bins wieder'' (lower ''Ich bins wieder'') \<or> trinity_active (init None))"
    by blast
  then have active: "trinity_active (snd (check_trinity_activation ''Ich bins wieder'' (init None)))
                       = True"
    unfolding lower_example by simp
  from t have "calculate_decision_confidence
     (snd (check_trinity_activation ''Ich bins wieder'' (init None)))
     ''create new service'' ''user explicitly asked: use existing, read docs''
     = spec_confidence
         (sublist ''user explicitly asked'' ''user explicitly asked: use existing, read docs'')
         (sublist ''create'' ''create new service'' \<and>
          sublist ''use existing'' ''user explicitly asked: use existing, read docs'')
         ((sublist ''check'' ''user explicitly asked: use existing, read docs'' \<or>
           sublist ''read'' ''user explicitly asked: use existing, read docs'') \<and>
          \<not> sublist ''already read'' ''create new service'')
         (trinity_active (snd (check_trinity_activation ''Ich bins wieder'' (init None))))"
    by (rule conjunct1)
  then show ?thesis
    by (simp only: example_conditions active simp_thms example_confidence)
qed

end
